theory Spec2Isabelle
  imports Main
begin

section \<open>Parsed documents and the Python operations the validators use\<close>

text \<open>
  The validators read YAML documents with \<^verbatim>\<open>yaml.safe_load\<close> and walk them with
  dynamically typed mapping and sequence operations. A parsed document is a value of
  \<open>yaml\<close>: null, booleans, integers, strings (sequences of code points below 256),
  sequences, and mappings with string keys (an association list read by its first
  binding of a key). Floats, timestamps and non-string mapping keys are outside the
  model.
\<close>

datatype yaml =
    YNull
  | YBool bool
  | YInt int
  | YStr string
  | YList "yaml list"
  | YMap "(string \<times> yaml) list"

text \<open>
  Every Python exception the modelled code can raise, by class. A raising operation
  returns \<open>Inl\<close> of the exception.
\<close>

datatype exn =
    AttributeError
  | TypeError
  | KeyError string
  | FileNotFoundError string
  | OSError
  | YAMLError
  | ValueError
  | IntegrityError
  | InterfaceError
  | OverflowError
  | OperationalError

text \<open>Python truthiness: \<^verbatim>\<open>if x:\<close>.\<close>

fun truthy :: "yaml \<Rightarrow> bool" where
  "truthy YNull = False"
| "truthy (YBool b) = b"
| "truthy (YInt i) = (i \<noteq> 0)"
| "truthy (YStr s) = (s \<noteq> [])"
| "truthy (YList xs) = (xs \<noteq> [])"
| "truthy (YMap m) = (m \<noteq> [])"

text \<open>
  \<^verbatim>\<open>r.get(k, d)\<close>: only a mapping has the method; on any other value the attribute
  lookup raises. \<^verbatim>\<open>r.get(k)\<close> is \<open>py_get r k YNull\<close>.
\<close>

fun py_get :: "yaml \<Rightarrow> string \<Rightarrow> yaml \<Rightarrow> exn + yaml" where
  "py_get (YMap m) k d = Inr (case map_of m k of None \<Rightarrow> d | Some v \<Rightarrow> v)"
| "py_get YNull k d = Inl AttributeError"
| "py_get (YBool b) k d = Inl AttributeError"
| "py_get (YInt i) k d = Inl AttributeError"
| "py_get (YStr s) k d = Inl AttributeError"
| "py_get (YList xs) k d = Inl AttributeError"

text \<open>\<^verbatim>\<open>s in t\<close> on two strings: \<open>s\<close> occurs in \<open>t\<close> as a contiguous run.\<close>

fun starts_with :: "string \<Rightarrow> string \<Rightarrow> bool" where
  "starts_with [] t = True"
| "starts_with (c # s) [] = False"
| "starts_with (c # s) (d # t) = (c = d \<and> starts_with s t)"

fun str_in :: "string \<Rightarrow> string \<Rightarrow> bool" where
  "str_in s [] = (s = [])"
| "str_in s (c # t) = (starts_with s (c # t) \<or> str_in s t)"

text \<open>
  \<^verbatim>\<open>k in data\<close> for a string literal \<open>k\<close>: key membership on a mapping, element
  membership on a sequence, substring test on a string, and a \<^verbatim>\<open>TypeError\<close> on
  null, booleans and integers (not iterable).
\<close>

fun py_contains :: "yaml \<Rightarrow> string \<Rightarrow> exn + bool" where
  "py_contains (YMap m) k = Inr (map_of m k \<noteq> None)"
| "py_contains (YList xs) k = Inr (YStr k \<in> set xs)"
| "py_contains (YStr s) k = Inr (str_in k s)"
| "py_contains YNull k = Inl TypeError"
| "py_contains (YBool b) k = Inl TypeError"
| "py_contains (YInt i) k = Inl TypeError"

text \<open>
  \<^verbatim>\<open>data[k]\<close> for a string literal \<open>k\<close>: the bound value on a mapping; every other
  value rejects a string subscript.
\<close>

fun py_getitem :: "yaml \<Rightarrow> string \<Rightarrow> exn + yaml" where
  "py_getitem (YMap m) k = (case map_of m k of None \<Rightarrow> Inl (KeyError k) | Some v \<Rightarrow> Inr v)"
| "py_getitem YNull k = Inl TypeError"
| "py_getitem (YBool b) k = Inl TypeError"
| "py_getitem (YInt i) k = Inl TypeError"
| "py_getitem (YStr s) k = Inl TypeError"
| "py_getitem (YList xs) k = Inl TypeError"

text \<open>
  \<^verbatim>\<open>for x in v\<close>: the elements of a sequence, the keys of a mapping, the characters of
  a string; anything else is not iterable.
\<close>

fun py_iter :: "yaml \<Rightarrow> exn + yaml list" where
  "py_iter (YList xs) = Inr xs"
| "py_iter (YMap m) = Inr (map YStr (remdups (map fst m)))"
| "py_iter (YStr s) = Inr (map (\<lambda>c. YStr [c]) s)"
| "py_iter YNull = Inl TypeError"
| "py_iter (YBool b) = Inl TypeError"
| "py_iter (YInt i) = Inl TypeError"

text \<open>
  The pattern \<^verbatim>\<open>if k in data: for x in data[k]: ...\<close>: the records the loop visits.
  A document without the key gives no records.
\<close>

definition section_items :: "yaml \<Rightarrow> string \<Rightarrow> exn + yaml list" where
  "section_items data k =
     (case py_contains data k of
        Inl e \<Rightarrow> Inl e
      | Inr present \<Rightarrow>
          if present then (case py_getitem data k of Inl e \<Rightarrow> Inl e | Inr v \<Rightarrow> py_iter v)
          else Inr [])"

text \<open>
  Hashing, as \<^verbatim>\<open>set\<close> and \<^verbatim>\<open>dict\<close> need it: sequences and mappings are
  unhashable; \<^verbatim>\<open>True\<close> and \<^verbatim>\<open>1\<close> (and \<^verbatim>\<open>False\<close> and \<^verbatim>\<open>0\<close>) are the same
  key. Two hashable values are equal in Python exactly when their keys are equal.
\<close>

datatype hkey = KNone | KInt int | KStr string

fun py_hash :: "yaml \<Rightarrow> exn + hkey" where
  "py_hash YNull = Inr KNone"
| "py_hash (YBool b) = Inr (KInt (if b then 1 else 0))"
| "py_hash (YInt i) = Inr (KInt i)"
| "py_hash (YStr s) = Inr (KStr s)"
| "py_hash (YList xs) = Inl TypeError"
| "py_hash (YMap m) = Inl TypeError"

text \<open>
  \<^verbatim>\<open>a == b\<close> where at least one side is a hashable scalar (every comparison of the
  modelled code is against a string literal or a dictionary key): a sequence or mapping
  never equals a scalar.
\<close>

definition py_eq :: "yaml \<Rightarrow> yaml \<Rightarrow> bool" where
  "py_eq a b = (case py_hash a of Inl e \<Rightarrow> False | Inr h \<Rightarrow> py_hash b = Inr h)"

text \<open>
  The loop \<^verbatim>\<open>for x in xs: errors.extend(f(x))\<close> inside a \<^verbatim>\<open>try\<close>: the messages of
  all records in order, or the first exception.
\<close>

fun collect :: "('a \<Rightarrow> exn + 'b list) \<Rightarrow> 'a list \<Rightarrow> exn + 'b list" where
  "collect f [] = Inr []"
| "collect f (x # xs) =
     (case f x of
        Inl e \<Rightarrow> Inl e
      | Inr ys \<Rightarrow> (case collect f xs of Inl e \<Rightarrow> Inl e | Inr zs \<Rightarrow> Inr (ys @ zs)))"

text \<open>Sequencing inside a \<^verbatim>\<open>try\<close>: the first exception ends the computation.\<close>

definition ebind :: "exn + 'a \<Rightarrow> ('a \<Rightarrow> exn + 'b) \<Rightarrow> exn + 'b" where
  "ebind m f = (case m of Inl e \<Rightarrow> Inl e | Inr x \<Rightarrow> f x)"

text \<open>Sequencing two message-producing steps: \<^verbatim>\<open>errors.extend(a); errors.extend(b)\<close>.\<close>

definition and_then :: "exn + 'b list \<Rightarrow> exn + 'b list \<Rightarrow> exn + 'b list" where
  "and_then a b =
     (case a of
        Inl e \<Rightarrow> Inl e
      | Inr ys \<Rightarrow> (case b of Inl e \<Rightarrow> Inl e | Inr zs \<Rightarrow> Inr (ys @ zs)))"

text \<open>Decimal digits of a natural number, as \<^verbatim>\<open>str(n)\<close> prints them.\<close>

fun dec :: "nat \<Rightarrow> string" where
  "dec n = (if n < 10 then [char_of (48 + n)] else dec (n div 10) @ [char_of (48 + n mod 10)])"

declare dec.simps [simp del]

section \<open>Messages\<close>

text \<open>
  Each validator returns a list of message strings built by f-strings. A message is
  kept here as its template (the constructor) with the interpolated values in source
  order; positions are the 1-based \<^verbatim>\<open>i+1\<close> of the source.
\<close>

datatype message =
    CrossRefPassed
  | CrossRefError exn
  | ParamRefsMissingGroup yaml yaml
  | GroupRefsMissingParam yaml yaml
  | BreadcrumbDangling nat yaml
  | Vg5Dangling nat yaml
  | AbbrMetricDangling nat yaml
  | ProtocolDangling nat yaml
  | BidiPassed
  | BidiError exn
  | BidiMismatch yaml yaml yaml
  | BidiGroupMissing yaml yaml
  | BidiParamMissing yaml yaml
  | BidiParamDiffers yaml yaml
  | CustomPassed
  | CustomError exn
  | DuplicateParameterId yaml
  | DuplicateParameterName yaml
  | DuplicateGroupId yaml
  | DuplicateGroupName yaml
  | ProtobufNotSnake yaml
  | InvalidReason yaml yaml
  | ProtocolRefSuffix yaml
  | BreadcrumbUrl nat
  | Vg5Url nat
  | AbbrFormat nat yaml
  | AbbrLink nat
  | MetricsLink nat
  | InvalidStandard nat yaml
  | ProtocolAbbr nat yaml
  | J1939Pgn nat
  | J1979Pid nat
  | SchemaPassed
  | SchemaViolation string string string
  | SchemaFailed exn
  | YamlParsingError
  | FileNotFoundMsg string
  | ValidationError exn
  | RequiredFilesMissing

section \<open>Files\<close>

text \<open>
  What a path holds when a validator opens it: nothing, something that exists but
  cannot be read as text (a directory, no permission), text that is not YAML, or a
  parsed document. An empty file parses to \<open>YNull\<close>.
\<close>

datatype file_state = Missing | Unreadable | Malformed | Parsed yaml

type_synonym filesystem = "string \<Rightarrow> file_state"

text \<open>\<^verbatim>\<open>CrossReferenceValidator._load_yaml_file\<close>.\<close>

definition load_yaml_file :: "filesystem \<Rightarrow> string \<Rightarrow> exn + yaml" where
  "load_yaml_file fs file_path =
     (case fs file_path of
        Missing \<Rightarrow> Inl (FileNotFoundError file_path)
      | Unreadable \<Rightarrow> Inl OSError
      | Malformed \<Rightarrow> Inl ValueError
      | Parsed v \<Rightarrow> Inr v)"

text \<open>\<^verbatim>\<open>with open(p) as f: data = yaml.safe_load(f)\<close>, as the other validators load.\<close>

definition open_safe_load :: "filesystem \<Rightarrow> string \<Rightarrow> exn + yaml" where
  "open_safe_load fs file_path =
     (case fs file_path of
        Missing \<Rightarrow> Inl (FileNotFoundError file_path)
      | Unreadable \<Rightarrow> Inl OSError
      | Malformed \<Rightarrow> Inl YAMLError
      | Parsed v \<Rightarrow> Inr v)"

section \<open>The cross-reference validator\<close>

text \<open>
  The loops that fill a \<^verbatim>\<open>set\<close> with one field of every record: the name sets keep
  truthy values (\<^verbatim>\<open>if group_name:\<close>), the id sets keep non-null values
  (\<^verbatim>\<open>if param_id is not None:\<close>). Adding a value hashes it.
\<close>

fun gather_keys :: "string \<Rightarrow> (yaml \<Rightarrow> bool) \<Rightarrow> yaml list \<Rightarrow> exn + hkey list" where
  "gather_keys fld keep [] = Inr []"
| "gather_keys fld keep (r # rs) =
     (case py_get r fld YNull of
        Inl e \<Rightarrow> Inl e
      | Inr v \<Rightarrow>
          if keep v then
            (case py_hash v of
               Inl e \<Rightarrow> Inl e
             | Inr h \<Rightarrow> (case gather_keys fld keep rs of Inl e \<Rightarrow> Inl e | Inr hs \<Rightarrow> Inr (h # hs)))
          else gather_keys fld keep rs)"

definition not_none :: "yaml \<Rightarrow> bool" where
  "not_none v = (v \<noteq> YNull)"

text \<open>
  The body of the second loop of \<^verbatim>\<open>_validate_parameter_to_protocol_refs\<close> and of
  \<^verbatim>\<open>_validate_protocol_to_parameter_refs\<close>: a truthy reference must be in the name
  set of the other document.
\<close>

definition check_name_ref ::
  "string \<Rightarrow> string \<Rightarrow> (yaml \<Rightarrow> yaml \<Rightarrow> message) \<Rightarrow> hkey list \<Rightarrow> yaml \<Rightarrow> exn + message list" where
  "check_name_ref name_key ref_key mk names r =
     ebind (py_get r name_key (YStr ''Unknown'')) (\<lambda>name.
     ebind (py_get r ref_key YNull) (\<lambda>ref.
       if truthy ref then
         ebind (py_hash ref) (\<lambda>h. Inr (if h \<notin> set names then [mk name ref] else []))
       else Inr []))"

definition validate_parameter_to_protocol_refs :: "yaml \<Rightarrow> yaml \<Rightarrow> exn + message list" where
  "validate_parameter_to_protocol_refs parameters_data protocols_data =
     ebind (section_items protocols_data ''protocol_groups'') (\<lambda>groups.
     ebind (gather_keys ''group_name'' truthy groups) (\<lambda>protocol_group_names.
     ebind (section_items parameters_data ''parameters'') (\<lambda>params.
       collect (check_name_ref ''field_name'' ''protocol_reference'' ParamRefsMissingGroup
                  protocol_group_names) params)))"

definition validate_protocol_to_parameter_refs :: "yaml \<Rightarrow> yaml \<Rightarrow> exn + message list" where
  "validate_protocol_to_parameter_refs parameters_data protocols_data =
     ebind (section_items parameters_data ''parameters'') (\<lambda>params.
     ebind (gather_keys ''field_name'' truthy params) (\<lambda>parameter_names.
     ebind (section_items protocols_data ''protocol_groups'') (\<lambda>groups.
       collect (check_name_ref ''group_name'' ''parameter_reference'' GroupRefsMissingParam
                  parameter_names) groups)))"

text \<open>
  The body of each foreign-key loop: \<^verbatim>\<open>if param_id is not None and param_id not in
  parameter_ids\<close>, reported with the 1-based position \<^verbatim>\<open>i+1\<close>.
\<close>

definition check_foreign_key ::
  "string \<Rightarrow> (nat \<Rightarrow> yaml \<Rightarrow> message) \<Rightarrow> hkey list \<Rightarrow> nat \<times> yaml \<Rightarrow> exn + message list" where
  "check_foreign_key fk mk ids ir =
     (case ir of (i, r) \<Rightarrow>
        ebind (py_get r fk YNull) (\<lambda>v.
          if not_none v then
            ebind (py_hash v) (\<lambda>h. Inr (if h \<notin> set ids then [mk (i + 1) v] else []))
          else Inr []))"

definition foreign_key_loop ::
  "yaml \<Rightarrow> string \<Rightarrow> string \<Rightarrow> (nat \<Rightarrow> yaml \<Rightarrow> message) \<Rightarrow> hkey list \<Rightarrow> exn + message list" where
  "foreign_key_loop data list_key fk mk ids =
     ebind (section_items data list_key) (\<lambda>records.
       collect (check_foreign_key fk mk ids) (enumerate 0 records))"

definition validate_internal_parameter_refs :: "yaml \<Rightarrow> exn + message list" where
  "validate_internal_parameter_refs parameters_data =
     ebind (section_items parameters_data ''parameters'') (\<lambda>params.
     ebind (gather_keys ''id'' not_none params) (\<lambda>parameter_ids.
       and_then (foreign_key_loop parameters_data ''breadcrumb_fields'' ''parameter_id''
                   BreadcrumbDangling parameter_ids)
      (and_then (foreign_key_loop parameters_data ''vg5_fields'' ''parameter_id''
                   Vg5Dangling parameter_ids)
                (foreign_key_loop parameters_data ''abbr_metrics'' ''parameter_id''
                   AbbrMetricDangling parameter_ids))))"

definition validate_internal_protocol_refs :: "yaml \<Rightarrow> exn + message list" where
  "validate_internal_protocol_refs protocols_data =
     ebind (section_items protocols_data ''protocol_groups'') (\<lambda>groups.
     ebind (gather_keys ''id'' not_none groups) (\<lambda>group_ids.
       foreign_key_loop protocols_data ''protocols'' ''group_id'' ProtocolDangling group_ids))"

text \<open>The four steps of \<^verbatim>\<open>validate_cross_references\<close>, after both files are loaded.\<close>

definition cross_reference_errors :: "yaml \<Rightarrow> yaml \<Rightarrow> exn + message list" where
  "cross_reference_errors parameters_data protocols_data =
     and_then (validate_parameter_to_protocol_refs parameters_data protocols_data)
    (and_then (validate_protocol_to_parameter_refs parameters_data protocols_data)
    (and_then (validate_internal_parameter_refs parameters_data)
              (validate_internal_protocol_refs protocols_data)))"

text \<open>
  The return statement shared by the validators:
  \<^verbatim>\<open>return len(errors) == 0, errors if errors else [passed]\<close>, and the handler
  \<^verbatim>\<open>except Exception as e: return False, [f"... error: {e}"]\<close>.
\<close>

definition outcome ::
  "message \<Rightarrow> (exn \<Rightarrow> message) \<Rightarrow> exn + message list \<Rightarrow> bool \<times> message list" where
  "outcome passed failed r =
     (case r of
        Inl e \<Rightarrow> (False, [failed e])
      | Inr errors \<Rightarrow> (errors = [], if errors \<noteq> [] then errors else [passed]))"

definition validate_cross_references ::
  "filesystem \<Rightarrow> string \<Rightarrow> string \<Rightarrow> bool \<times> message list" where
  "validate_cross_references fs parameters_file protocols_file =
     outcome CrossRefPassed CrossRefError
       (ebind (load_yaml_file fs parameters_file) (\<lambda>parameters_data.
        ebind (load_yaml_file fs protocols_file) (\<lambda>protocols_data.
          cross_reference_errors parameters_data protocols_data)))"

subsection \<open>Bidirectional consistency\<close>

text \<open>
  A Python \<^verbatim>\<open>dict\<close> in insertion order: each entry holds the key's hash key, the key
  object first inserted, and the current value. Assigning to a key already present
  replaces the value in place; a new key goes to the end.
\<close>

type_synonym pydict = "(hkey \<times> yaml \<times> yaml) list"

fun dict_set :: "pydict \<Rightarrow> hkey \<Rightarrow> yaml \<Rightarrow> yaml \<Rightarrow> pydict" where
  "dict_set [] h k v = [(h, k, v)]"
| "dict_set ((h', k', v') # d) h k v =
     (if h' = h then (h', k', v) # d else (h', k', v') # dict_set d h k v)"

definition dict_get :: "pydict \<Rightarrow> hkey \<Rightarrow> yaml option" where
  "dict_get d h = (case map_of d h of None \<Rightarrow> None | Some kv \<Rightarrow> Some (snd kv))"

text \<open>
  The two map-building loops: a record enters the map only when both its name and its
  reference are truthy (\<^verbatim>\<open>if field_name and protocol_ref:\<close>).
\<close>

fun build_links :: "string \<Rightarrow> string \<Rightarrow> yaml list \<Rightarrow> pydict \<Rightarrow> exn + pydict" where
  "build_links name_key ref_key [] d = Inr d"
| "build_links name_key ref_key (r # rs) d =
     (case py_get r name_key YNull of
        Inl e \<Rightarrow> Inl e
      | Inr name \<Rightarrow>
          (case py_get r ref_key YNull of
             Inl e \<Rightarrow> Inl e
           | Inr ref \<Rightarrow>
               if truthy name \<and> truthy ref then
                 (case py_hash name of
                    Inl e \<Rightarrow> Inl e
                  | Inr h \<Rightarrow> build_links name_key ref_key rs (dict_set d h name ref))
               else build_links name_key ref_key rs d))"

text \<open>The body of the loop over \<^verbatim>\<open>param_to_protocol.items()\<close>.\<close>

definition check_param_link :: "pydict \<Rightarrow> hkey \<times> yaml \<times> yaml \<Rightarrow> exn + message list" where
  "check_param_link protocol_to_param entry =
     (case entry of (h, param_name, protocol_name) \<Rightarrow>
        ebind (py_hash protocol_name) (\<lambda>hp.
          Inr (case dict_get protocol_to_param hp of
                 Some expected_param \<Rightarrow>
                   if \<not> py_eq expected_param param_name
                   then [BidiMismatch param_name protocol_name expected_param] else []
               | None \<Rightarrow> [BidiGroupMissing param_name protocol_name])))"

text \<open>The body of the loop over \<^verbatim>\<open>protocol_to_param.items()\<close>.\<close>

definition check_group_link :: "pydict \<Rightarrow> hkey \<times> yaml \<times> yaml \<Rightarrow> exn + message list" where
  "check_group_link param_to_protocol entry =
     (case entry of (h, protocol_name, param_name) \<Rightarrow>
        ebind (py_hash param_name) (\<lambda>hp.
          Inr (case dict_get param_to_protocol hp of
                 None \<Rightarrow> [BidiParamMissing protocol_name param_name]
               | Some p \<Rightarrow>
                   if \<not> py_eq p protocol_name
                   then [BidiParamDiffers protocol_name param_name] else [])))"

definition bidirectional_errors :: "yaml \<Rightarrow> yaml \<Rightarrow> exn + message list" where
  "bidirectional_errors parameters_data protocols_data =
     ebind (section_items parameters_data ''parameters'') (\<lambda>params.
     ebind (build_links ''field_name'' ''protocol_reference'' params []) (\<lambda>param_to_protocol.
     ebind (section_items protocols_data ''protocol_groups'') (\<lambda>groups.
     ebind (build_links ''group_name'' ''parameter_reference'' groups []) (\<lambda>protocol_to_param.
       and_then (collect (check_param_link protocol_to_param) param_to_protocol)
                (collect (check_group_link param_to_protocol) protocol_to_param)))))"

definition validate_bidirectional_consistency ::
  "filesystem \<Rightarrow> string \<Rightarrow> string \<Rightarrow> bool \<times> message list" where
  "validate_bidirectional_consistency fs parameters_file protocols_file =
     outcome BidiPassed BidiError
       (ebind (load_yaml_file fs parameters_file) (\<lambda>parameters_data.
        ebind (load_yaml_file fs protocols_file) (\<lambda>protocols_data.
          bidirectional_errors parameters_data protocols_data)))"

section \<open>The business-rule validator\<close>

subsection \<open>Format predicates\<close>

definition code_point :: "char \<Rightarrow> nat" where
  "code_point c = of_char c"

definition is_lower :: "char \<Rightarrow> bool" where
  "is_lower c = (97 \<le> code_point c \<and> code_point c \<le> 122)"

definition is_upper :: "char \<Rightarrow> bool" where
  "is_upper c = (65 \<le> code_point c \<and> code_point c \<le> 90)"

definition is_ascii_digit :: "char \<Rightarrow> bool" where
  "is_ascii_digit c = (48 \<le> code_point c \<and> code_point c \<le> 57)"

text \<open>
  A pattern that ends in \<^verbatim>\<open>$\<close> matches the whole text, or the text without one final
  newline.
\<close>

definition dollar :: "(string \<Rightarrow> bool) \<Rightarrow> string \<Rightarrow> bool" where
  "dollar core t = (core t \<or> (t \<noteq> [] \<and> code_point (last t) = 10 \<and> core (butlast t)))"

text \<open>\<^verbatim>\<open>[a-z][a-z0-9_]*[a-z0-9]\<close> on a whole text.\<close>

definition snake_core :: "string \<Rightarrow> bool" where
  "snake_core t =
     (case t of
        [] \<Rightarrow> False
      | c # u \<Rightarrow>
          is_lower c \<and> u \<noteq> [] \<and>
          list_all (\<lambda>x. is_lower x \<or> is_ascii_digit x \<or> code_point x = 95) (butlast u) \<and>
          (is_lower (last u) \<or> is_ascii_digit (last u)))"

text \<open>\<^verbatim>\<open>[A-Z]{2,6}\<close> on a whole text.\<close>

definition abbreviation_core :: "string \<Rightarrow> bool" where
  "abbreviation_core t = (2 \<le> length t \<and> length t \<le> 6 \<and> list_all is_upper t)"

text \<open>\<^verbatim>\<open>0x[0-9A-F]+\<close> on a whole text, and \<^verbatim>\<open>0x[0-9A-F]+(/0x[0-9A-F]+)?\<close>.\<close>

definition hex_literal :: "string \<Rightarrow> bool" where
  "hex_literal t =
     (starts_with ''0x'' t \<and> drop 2 t \<noteq> [] \<and>
      list_all (\<lambda>x. is_ascii_digit x \<or> (65 \<le> code_point x \<and> code_point x \<le> 70)) (drop 2 t))"

definition j1979_core :: "string \<Rightarrow> bool" where
  "j1979_core t =
     (let a = takeWhile (\<lambda>x. code_point x \<noteq> 47) t; b = dropWhile (\<lambda>x. code_point x \<noteq> 47) t
      in hex_literal a \<and> (b = [] \<or> hex_literal (tl b)))"

text \<open>
  \<^verbatim>\<open>re.match\<close> raises \<^verbatim>\<open>TypeError\<close> when the text is not a string.
\<close>

definition re_match :: "(string \<Rightarrow> bool) \<Rightarrow> yaml \<Rightarrow> exn + bool" where
  "re_match core v = (case v of YStr t \<Rightarrow> Inr (dollar core t) | _ \<Rightarrow> Inl TypeError)"

definition is_valid_snake_case :: "yaml \<Rightarrow> exn + bool" where
  "is_valid_snake_case v = re_match snake_core v"

definition is_valid_abbreviation :: "yaml \<Rightarrow> exn + bool" where
  "is_valid_abbreviation v = re_match abbreviation_core v"

definition is_valid_j1979_pid :: "yaml \<Rightarrow> exn + bool" where
  "is_valid_j1979_pid v = re_match j1979_core v"

text \<open>
  \<^verbatim>\<open>text.endswith('_protocols')\<close> and \<^verbatim>\<open>text.isdigit()\<close>: methods of strings only.
  Below code point 256 the digits of \<^verbatim>\<open>isdigit\<close> are 0 to 9 and the superscripts
  one, two and three.
\<close>

definition endswith_protocols :: "yaml \<Rightarrow> exn + bool" where
  "endswith_protocols v =
     (case v of YStr t \<Rightarrow> Inr (starts_with (rev ''_protocols'') (rev t)) | _ \<Rightarrow> Inl AttributeError)"

definition isdigit :: "yaml \<Rightarrow> exn + bool" where
  "isdigit v =
     (case v of
        YStr t \<Rightarrow>
          Inr (t \<noteq> [] \<and>
               list_all (\<lambda>x. is_ascii_digit x \<or> code_point x = 178 \<or> code_point x = 179 \<or>
                              code_point x = 185) t)
      | _ \<Rightarrow> Inl AttributeError)"

text \<open>
  \<^verbatim>\<open>urllib.parse.urlparse\<close> is a library function: it is a parameter of the model,
  giving scheme, network location and path of a string, or \<open>None\<close> where it raises.
  The URL predicates catch every exception, and \<^verbatim>\<open>urlparse\<close> raises on a value that
  is not a string.
\<close>

record parsed_url =
  url_scheme :: string
  url_netloc :: string
  url_path :: string

type_synonym urlparser = "string \<Rightarrow> parsed_url option"

definition url_check :: "urlparser \<Rightarrow> (parsed_url \<Rightarrow> bool) \<Rightarrow> yaml \<Rightarrow> bool" where
  "url_check urlparse ok url =
     (case url of
        YStr s \<Rightarrow> (case urlparse s of None \<Rightarrow> False | Some parsed \<Rightarrow> ok parsed)
      | _ \<Rightarrow> False)"

definition http_scheme :: "parsed_url \<Rightarrow> bool" where
  "http_scheme parsed = (url_scheme parsed \<in> set [''http'', ''https''])"

definition is_valid_motive_docs_url :: "urlparser \<Rightarrow> yaml \<Rightarrow> bool" where
  "is_valid_motive_docs_url urlparse url =
     url_check urlparse
       (\<lambda>parsed. http_scheme parsed \<and> str_in ''docs.motive.com'' (url_netloc parsed)) url"

definition is_valid_vg5_url :: "urlparser \<Rightarrow> yaml \<Rightarrow> bool" where
  "is_valid_vg5_url urlparse url =
     url_check urlparse
       (\<lambda>parsed. http_scheme parsed \<and> str_in ''docs.motive.com'' (url_netloc parsed) \<and>
                  str_in ''/vg5/'' (url_path parsed)) url"

definition is_valid_abbr_url :: "urlparser \<Rightarrow> yaml \<Rightarrow> bool" where
  "is_valid_abbr_url urlparse url =
     url_check urlparse
       (\<lambda>parsed. http_scheme parsed \<and> str_in ''docs.motive.com'' (url_netloc parsed) \<and>
                  str_in ''/abbr/'' (url_path parsed)) url"

definition is_valid_metrics_url :: "urlparser \<Rightarrow> yaml \<Rightarrow> bool" where
  "is_valid_metrics_url urlparse url =
     url_check urlparse
       (\<lambda>parsed. http_scheme parsed \<and> str_in ''redash.motive.com'' (url_netloc parsed)) url"

subsection \<open>The constant lists of the constructor\<close>

definition valid_protocol_standards :: "string list" where
  "valid_protocol_standards = [''J1939'', ''J1587'', ''J1979'']"

definition valid_reasons :: "string list" where
  "valid_reasons =
     [''ELD Mandate'', ''Driver Performance'', ''Driver Scorecard'', ''Safety'',
      ''Engine Insight'', ''Value add for customer'', ''Safety_Monitoring'']"

text \<open>\<^verbatim>\<open>v in strs\<close> for a list of strings: only an equal string is a member.\<close>

definition in_strings :: "yaml \<Rightarrow> string list \<Rightarrow> bool" where
  "in_strings v strs = (v \<in> set (map YStr strs))"

subsection \<open>Duplicate detection\<close>

text \<open>
  The four duplicate checks share one loop: a running set of the values seen; a value
  already in the set is reported, any other value is added.
\<close>

fun duplicate_scan ::
  "string \<Rightarrow> (yaml \<Rightarrow> message) \<Rightarrow> yaml list \<Rightarrow> hkey list \<Rightarrow> exn + message list" where
  "duplicate_scan fld mk [] seen = Inr []"
| "duplicate_scan fld mk (r # rs) seen =
     (case py_get r fld YNull of
        Inl e \<Rightarrow> Inl e
      | Inr v \<Rightarrow>
          (case py_hash v of
             Inl e \<Rightarrow> Inl e
           | Inr h \<Rightarrow>
               if h \<in> set seen then
                 (case duplicate_scan fld mk rs seen of
                    Inl e \<Rightarrow> Inl e
                  | Inr errors \<Rightarrow> Inr (mk v # errors))
               else duplicate_scan fld mk rs (h # seen)))"

definition check_duplicate_parameter_ids :: "yaml \<Rightarrow> exn + message list" where
  "check_duplicate_parameter_ids parameters =
     ebind (py_iter parameters) (\<lambda>ps. duplicate_scan ''id'' DuplicateParameterId ps [])"

definition check_duplicate_parameter_names :: "yaml \<Rightarrow> exn + message list" where
  "check_duplicate_parameter_names parameters =
     ebind (py_iter parameters) (\<lambda>ps. duplicate_scan ''field_name'' DuplicateParameterName ps [])"

definition check_duplicate_group_ids :: "yaml \<Rightarrow> exn + message list" where
  "check_duplicate_group_ids protocol_groups =
     ebind (py_iter protocol_groups) (\<lambda>gs. duplicate_scan ''id'' DuplicateGroupId gs [])"

definition check_duplicate_group_names :: "yaml \<Rightarrow> exn + message list" where
  "check_duplicate_group_names protocol_groups =
     ebind (py_iter protocol_groups) (\<lambda>gs. duplicate_scan ''group_name'' DuplicateGroupName gs [])"

subsection \<open>Single records\<close>

text \<open>
  One guarded check: \<^verbatim>\<open>if v and not ok(v): errors.append(msg)\<close>. The test \<open>ok\<close> is not
  evaluated on a falsy value.
\<close>

definition guarded :: "yaml \<Rightarrow> (yaml \<Rightarrow> exn + bool) \<Rightarrow> message \<Rightarrow> exn + message list" where
  "guarded v ok msg =
     (if truthy v then ebind (ok v) (\<lambda>good. Inr (if \<not> good then [msg] else [])) else Inr [])"

definition validate_single_parameter :: "yaml \<Rightarrow> nat \<Rightarrow> exn + message list" where
  "validate_single_parameter param param_num =
     ebind (py_get param ''field_name'' (YStr (''Parameter '' @ dec param_num))) (\<lambda>field_name.
     ebind (py_get param ''protobuf_field'' (YStr [])) (\<lambda>protobuf_field.
     and_then (guarded protobuf_field is_valid_snake_case (ProtobufNotSnake field_name))
    (ebind (py_get param ''reason_added'' (YStr [])) (\<lambda>reason_added.
     and_then (guarded reason_added (\<lambda>v. Inr (in_strings v valid_reasons))
                 (InvalidReason field_name reason_added))
    (ebind (py_get param ''protocol_reference'' (YStr [])) (\<lambda>protocol_ref.
       guarded protocol_ref endswith_protocols (ProtocolRefSuffix field_name)))))))"

definition validate_breadcrumb_fields :: "urlparser \<Rightarrow> yaml \<Rightarrow> exn + message list" where
  "validate_breadcrumb_fields urlparse breadcrumb_fields =
     ebind (py_iter breadcrumb_fields) (\<lambda>bs.
       collect (\<lambda>ib. case ib of (i, breadcrumb) \<Rightarrow>
         ebind (py_get breadcrumb ''breadcrumb_link'' (YStr [])) (\<lambda>link.
           guarded link (\<lambda>v. Inr (is_valid_motive_docs_url urlparse v)) (BreadcrumbUrl (i + 1))))
         (enumerate 0 bs))"

definition validate_vg5_fields :: "urlparser \<Rightarrow> yaml \<Rightarrow> exn + message list" where
  "validate_vg5_fields urlparse vg5_fields =
     ebind (py_iter vg5_fields) (\<lambda>vs.
       collect (\<lambda>iv. case iv of (i, vg5) \<Rightarrow>
         ebind (py_get vg5 ''vg5_link'' (YStr [])) (\<lambda>link.
           guarded link (\<lambda>v. Inr (is_valid_vg5_url urlparse v)) (Vg5Url (i + 1))))
         (enumerate 0 vs))"

definition validate_abbr_metrics :: "urlparser \<Rightarrow> yaml \<Rightarrow> exn + message list" where
  "validate_abbr_metrics urlparse abbr_metrics =
     ebind (py_iter abbr_metrics) (\<lambda>ms.
       collect (\<lambda>ia. case ia of (i, abbr) \<Rightarrow>
         ebind (py_get abbr ''abbr_value'' (YStr [])) (\<lambda>abbr_value.
         and_then (guarded abbr_value is_valid_abbreviation (AbbrFormat (i + 1) abbr_value))
        (ebind (py_get abbr ''abbr_link'' (YStr [])) (\<lambda>abbr_link.
         and_then (guarded abbr_link (\<lambda>v. Inr (is_valid_abbr_url urlparse v)) (AbbrLink (i + 1)))
        (ebind (py_get abbr ''metrics_link'' (YStr [])) (\<lambda>metrics_link.
           guarded metrics_link (\<lambda>v. Inr (is_valid_metrics_url urlparse v))
             (MetricsLink (i + 1))))))))
         (enumerate 0 ms))"

definition validate_single_protocol :: "yaml \<Rightarrow> nat \<Rightarrow> exn + message list" where
  "validate_single_protocol protocol protocol_num =
     ebind (py_get protocol ''protocol_standard'' (YStr [])) (\<lambda>standard.
     and_then (guarded standard (\<lambda>v. Inr (in_strings v valid_protocol_standards))
                 (InvalidStandard protocol_num standard))
    (ebind (py_get protocol ''abbr'' (YStr [])) (\<lambda>abbr.
     and_then (guarded abbr is_valid_abbreviation (ProtocolAbbr protocol_num abbr))
       (if py_eq standard (YStr ''J1939'') then
          ebind (py_get protocol ''pgn_pid'' (YStr [])) (\<lambda>pgn_pid.
            guarded pgn_pid isdigit (J1939Pgn protocol_num))
        else if py_eq standard (YStr ''J1979'') then
          ebind (py_get protocol ''pgn_pid'' (YStr [])) (\<lambda>pgn_pid.
            guarded pgn_pid is_valid_j1979_pid (J1979Pid protocol_num))
        else Inr []))))"

subsection \<open>The two entry points\<close>

text \<open>The statements of \<^verbatim>\<open>validate_parameters_business_logic\<close> inside its \<^verbatim>\<open>try\<close>.\<close>

definition parameters_business_errors :: "urlparser \<Rightarrow> yaml \<Rightarrow> exn + message list" where
  "parameters_business_errors urlparse data =
     and_then
       (ebind (py_contains data ''parameters'') (\<lambda>present.
          if present then
            ebind (py_getitem data ''parameters'') (\<lambda>parameters.
              and_then (check_duplicate_parameter_ids parameters)
             (and_then (check_duplicate_parameter_names parameters)
                (ebind (py_iter parameters) (\<lambda>ps.
                   collect (\<lambda>ip. case ip of (i, param) \<Rightarrow> validate_single_parameter param (i + 1))
                     (enumerate 0 ps)))))
          else Inr []))
    (and_then
       (ebind (py_contains data ''breadcrumb_fields'') (\<lambda>present.
          if present then
            ebind (py_getitem data ''breadcrumb_fields'') (validate_breadcrumb_fields urlparse)
          else Inr []))
    (and_then
       (ebind (py_contains data ''vg5_fields'') (\<lambda>present.
          if present then ebind (py_getitem data ''vg5_fields'') (validate_vg5_fields urlparse)
          else Inr []))
       (ebind (py_contains data ''abbr_metrics'') (\<lambda>present.
          if present then ebind (py_getitem data ''abbr_metrics'') (validate_abbr_metrics urlparse)
          else Inr []))))"

definition validate_parameters_business_logic ::
  "filesystem \<Rightarrow> urlparser \<Rightarrow> string \<Rightarrow> bool \<times> message list" where
  "validate_parameters_business_logic fs urlparse yaml_file_path =
     outcome CustomPassed CustomError
       (ebind (open_safe_load fs yaml_file_path) (parameters_business_errors urlparse))"

text \<open>The statements of \<^verbatim>\<open>validate_protocols_business_logic\<close> inside its \<^verbatim>\<open>try\<close>.\<close>

definition protocols_business_errors :: "yaml \<Rightarrow> exn + message list" where
  "protocols_business_errors data =
     and_then
       (ebind (py_contains data ''protocol_groups'') (\<lambda>present.
          if present then
            ebind (py_getitem data ''protocol_groups'') (\<lambda>protocol_groups.
              and_then (check_duplicate_group_ids protocol_groups)
                       (check_duplicate_group_names protocol_groups))
          else Inr []))
       (ebind (py_contains data ''protocols'') (\<lambda>present.
          if present then
            ebind (py_getitem data ''protocols'') (\<lambda>protocols.
            ebind (py_iter protocols) (\<lambda>ps.
              collect (\<lambda>ip. case ip of (i, protocol) \<Rightarrow> validate_single_protocol protocol (i + 1))
                (enumerate 0 ps)))
          else Inr []))"

definition validate_protocols_business_logic ::
  "filesystem \<Rightarrow> string \<Rightarrow> bool \<times> message list" where
  "validate_protocols_business_logic fs yaml_file_path =
     outcome CustomPassed CustomError
       (ebind (open_safe_load fs yaml_file_path) protocols_business_errors)"

section \<open>The schema validator\<close>

text \<open>
  The schema documents and the \<^verbatim>\<open>jsonschema\<close> library are not part of the validators'
  code: a loaded schema is a parameter of the model, the function that
  \<^verbatim>\<open>Draft7Validator(schema).iter_errors(data)\<close> computes, giving the path and message of
  every violation in the library's order, or the exception it raises.
\<close>

type_synonym schema = "yaml \<Rightarrow> exn + (string \<times> string) list"

text \<open>\<^verbatim>\<open>_validate_data\<close>; \<open>title\<close> is \<^verbatim>\<open>data_type.title()\<close>.\<close>

definition validate_data :: "schema \<Rightarrow> yaml \<Rightarrow> string \<Rightarrow> bool \<times> message list" where
  "validate_data schema_of data title =
     (case schema_of data of
        Inl e \<Rightarrow> (False, [SchemaFailed e])
      | Inr violations \<Rightarrow>
          (let errors = map (\<lambda>pm. SchemaViolation title (fst pm) (snd pm)) violations
           in if errors \<noteq> [] then (False, errors) else (True, [SchemaPassed])))"

text \<open>
  \<^verbatim>\<open>validate_parameters_file\<close> and \<^verbatim>\<open>validate_protocols_file\<close> have the same body:
  the three handlers around loading, then \<^verbatim>\<open>_validate_data\<close>.
\<close>

definition validate_schema_file ::
  "filesystem \<Rightarrow> schema \<Rightarrow> string \<Rightarrow> string \<Rightarrow> bool \<times> message list" where
  "validate_schema_file fs schema_of title yaml_file_path =
     (case fs yaml_file_path of
        Missing \<Rightarrow> (False, [FileNotFoundMsg yaml_file_path])
      | Unreadable \<Rightarrow> (False, [ValidationError OSError])
      | Malformed \<Rightarrow> (False, [YamlParsingError])
      | Parsed yaml_data \<Rightarrow> validate_data schema_of yaml_data title)"

definition validate_parameters_file ::
  "filesystem \<Rightarrow> schema \<Rightarrow> string \<Rightarrow> bool \<times> message list" where
  "validate_parameters_file fs parameters_schema_of yaml_file_path =
     validate_schema_file fs parameters_schema_of ''Parameters'' yaml_file_path"

definition validate_protocols_file ::
  "filesystem \<Rightarrow> schema \<Rightarrow> string \<Rightarrow> bool \<times> message list" where
  "validate_protocols_file fs protocols_schema_of yaml_file_path =
     validate_schema_file fs protocols_schema_of ''Protocols'' yaml_file_path"

section \<open>The orchestrator\<close>

text \<open>
  Everything outside the code that a run of \<^verbatim>\<open>validate_all\<close> depends on: the files, the
  two loaded schemas and the URL parser.
\<close>

record world =
  files :: filesystem
  parameters_schema :: schema
  protocols_schema :: schema
  urlparse_of :: urlparser

datatype status = Passed | Failed

text \<open>
  The dictionary a step returns. The \<^verbatim>\<open>file_existence\<close> entry of the source has the keys
  \<^verbatim>\<open>status\<close> and \<^verbatim>\<open>errors\<close> only; its other fields are empty here.
\<close>

record step_result =
  step_status :: status
  step_errors :: "message list"
  step_warnings :: "message list"
  step_details :: "(string \<times> bool \<times> message list) list"

record summary =
  total_steps :: nat
  passed_steps :: nat
  failed_steps :: nat
  all_passed :: bool
  step_results :: "(string \<times> status) list"

text \<open>
  The report dictionary. \<open>summary_of = None\<close> is the initial empty dictionary \<^verbatim>\<open>{}\<close>;
  \<open>validation_duration_seconds = None\<close> says the key is absent. Times are clock readings
  in microseconds.
\<close>

record report =
  validation_timestamp :: int
  files_validated :: "string \<times> string"
  overall_valid :: bool
  validation_steps :: "(string \<times> step_result) list"
  summary_of :: "summary option"
  errors :: "message list"
  warnings :: "message list"
  validation_duration_seconds :: "int option"

text \<open>\<^verbatim>\<open>Path(p).exists()\<close> for both paths.\<close>

definition check_file_existence :: "filesystem \<Rightarrow> string \<Rightarrow> string \<Rightarrow> bool" where
  "check_file_existence fs parameters_file protocols_file =
     (fs parameters_file \<noteq> Missing \<and> fs protocols_file \<noteq> Missing)"

text \<open>
  The common shape of the three \<^verbatim>\<open>_run_...\<close> methods: two validator calls, both always
  made, their results recorded under two detail keys, and the step failed when either
  is invalid, with the messages of the invalid ones as errors.
\<close>

definition run_pair ::
  "string \<Rightarrow> bool \<times> message list \<Rightarrow> string \<Rightarrow> bool \<times> message list \<Rightarrow> step_result" where
  "run_pair key1 r1 key2 r2 =
     \<lparr> step_status = (if \<not> fst r1 \<or> \<not> fst r2 then Failed else Passed),
       step_errors =
         (if \<not> fst r1 \<or> \<not> fst r2
          then (if \<not> fst r1 then snd r1 else []) @ (if \<not> fst r2 then snd r2 else [])
          else []),
       step_warnings = [],
       step_details = [(key1, fst r1, snd r1), (key2, fst r2, snd r2)] \<rparr>"

definition run_json_schema_validation :: "world \<Rightarrow> string \<Rightarrow> string \<Rightarrow> step_result" where
  "run_json_schema_validation w parameters_file protocols_file =
     run_pair
       ''parameters''
       (validate_parameters_file (files w) (parameters_schema w) parameters_file)
       ''protocols''
       (validate_protocols_file (files w) (protocols_schema w) protocols_file)"

definition run_custom_validation :: "world \<Rightarrow> string \<Rightarrow> string \<Rightarrow> step_result" where
  "run_custom_validation w parameters_file protocols_file =
     run_pair
       ''parameters_custom''
       (validate_parameters_business_logic (files w) (urlparse_of w) parameters_file)
       ''protocols_custom''
       (validate_protocols_business_logic (files w) protocols_file)"

definition run_cross_reference_validation :: "world \<Rightarrow> string \<Rightarrow> string \<Rightarrow> step_result" where
  "run_cross_reference_validation w parameters_file protocols_file =
     run_pair
       ''cross_references''
       (validate_cross_references (files w) parameters_file protocols_file)
       ''bidirectional_consistency''
       (validate_bidirectional_consistency (files w) parameters_file protocols_file)"

definition generate_summary :: "(string \<times> step_result) list \<Rightarrow> summary" where
  "generate_summary steps =
     \<lparr> total_steps = length steps,
       passed_steps = length (filter (\<lambda>s. step_status (snd s) = Passed) steps),
       failed_steps = length (filter (\<lambda>s. step_status (snd s) \<noteq> Passed) steps),
       all_passed = list_all (\<lambda>s. step_status (snd s) = Passed) steps,
       step_results = map (\<lambda>s. (fst s, step_status (snd s))) steps \<rparr>"

text \<open>
  \<^verbatim>\<open>validate_all\<close>. \<open>validation_start\<close> and \<open>validation_end\<close> are the two readings of
  \<^verbatim>\<open>datetime.now()\<close>. The \<^verbatim>\<open>verbose\<close> flag only prints and is left out.
\<close>

definition validate_all :: "world \<Rightarrow> int \<Rightarrow> int \<Rightarrow> string \<Rightarrow> string \<Rightarrow> report" where
  "validate_all w validation_start validation_end parameters_file protocols_file =
     (let results =
            \<lparr> validation_timestamp = validation_start,
              files_validated = (parameters_file, protocols_file),
              overall_valid = False,
              validation_steps = [],
              summary_of = None,
              errors = [],
              warnings = [],
              validation_duration_seconds = None \<rparr>
      in if \<not> check_file_existence (files w) parameters_file protocols_file then
           results
             \<lparr> validation_steps :=
                 [(''file_existence'',
                   \<lparr> step_status = Failed, step_errors = [RequiredFilesMissing],
                     step_warnings = [], step_details = [] \<rparr>)],
               errors := [RequiredFilesMissing] \<rparr>
         else
           (let steps =
                  [(''json_schema'', run_json_schema_validation w parameters_file protocols_file),
                   (''custom_logic'', run_custom_validation w parameters_file protocols_file),
                   (''cross_references'',
                    run_cross_reference_validation w parameters_file protocols_file)];
                s = generate_summary steps
            in results
                 \<lparr> validation_steps := steps,
                   summary_of := Some s,
                   overall_valid := all_passed s,
                   errors :=
                     concat (map (\<lambda>st. if step_status (snd st) = Failed then step_errors (snd st)
                                         else []) steps),
                   warnings := concat (map (\<lambda>st. step_warnings (snd st)) steps),
                   validation_duration_seconds := Some (validation_end - validation_start) \<rparr>))"

text \<open>
  \<^verbatim>\<open>get_validation_status\<close>: it subscripts the report with
  \<^verbatim>\<open>'validation_duration_seconds'\<close>, which raises \<^verbatim>\<open>KeyError\<close> when the key is absent.
\<close>

record quick_status =
  status_overall_valid :: bool
  error_count :: nat
  warning_count :: nat
  status_timestamp :: int
  duration_seconds :: int

definition get_validation_status ::
  "world \<Rightarrow> int \<Rightarrow> int \<Rightarrow> string \<Rightarrow> string \<Rightarrow> exn + quick_status" where
  "get_validation_status w validation_start validation_end parameters_file protocols_file =
     (let results = validate_all w validation_start validation_end parameters_file protocols_file
      in case validation_duration_seconds results of
           None \<Rightarrow> Inl (KeyError ''validation_duration_seconds'')
         | Some d \<Rightarrow>
             Inr \<lparr> status_overall_valid = overall_valid results,
                   error_count = length (errors results),
                   warning_count = length (warnings results),
                   status_timestamp = validation_timestamp results,
                   duration_seconds = d \<rparr>)"

section \<open>The database generator\<close>

text \<open>
  The generator writes through the \<^verbatim>\<open>sqlite3\<close> library. The database engine is not
  part of the generator's code; it is modelled here as far as the six
  \<^verbatim>\<open>CREATE TABLE\<close> statements of \<^verbatim>\<open>_create_tables\<close> determine what an \<^verbatim>\<open>INSERT\<close>
  does. A table is the list of its rows in insertion order; a row is its integer
  \<^verbatim>\<open>id\<close> and the values of the columns the \<^verbatim>\<open>INSERT\<close> names after it (the
  \<^verbatim>\<open>created_at\<close> column is left out).

  Binding a Python value: null, integers within 64 bits (booleans are integers) and
  strings are supported; a sequence or mapping is rejected, a larger integer overflows.
\<close>

datatype sqlval = SNull | SInt int | SText string

definition bind_value :: "yaml \<Rightarrow> exn + sqlval" where
  "bind_value v =
     (case v of
        YNull \<Rightarrow> Inr SNull
      | YBool b \<Rightarrow> Inr (SInt (if b then 1 else 0))
      | YInt i \<Rightarrow>
          if - 9223372036854775808 \<le> i \<and> i \<le> 9223372036854775807 then Inr (SInt i)
          else Inl OverflowError
      | YStr s \<Rightarrow> Inr (SText s)
      | YList xs \<Rightarrow> Inl InterfaceError
      | YMap m \<Rightarrow> Inl InterfaceError)"

fun bind_all :: "yaml list \<Rightarrow> exn + sqlval list" where
  "bind_all [] = Inr []"
| "bind_all (v # vs) =
     (case bind_value v of
        Inl e \<Rightarrow> Inl e
      | Inr b \<Rightarrow> (case bind_all vs of Inl e \<Rightarrow> Inl e | Inr bs \<Rightarrow> Inr (b # bs)))"

text \<open>The tuple of \<^verbatim>\<open>r.get(k)\<close> for the listed keys.\<close>

fun record_values :: "yaml \<Rightarrow> string list \<Rightarrow> exn + yaml list" where
  "record_values r [] = Inr []"
| "record_values r (k # ks) =
     (case py_get r k YNull of
        Inl e \<Rightarrow> Inl e
      | Inr v \<Rightarrow> (case record_values r ks of Inl e \<Rightarrow> Inl e | Inr vs \<Rightarrow> Inr (v # vs)))"

type_synonym table = "(int \<times> sqlval list) list"

text \<open>
  An owning table (\<^verbatim>\<open>parameters\<close>, \<^verbatim>\<open>protocol_groups\<close>) declares
  \<^verbatim>\<open>id INTEGER PRIMARY KEY\<close> and its name column \<^verbatim>\<open>UNIQUE NOT NULL\<close>; the
  \<^verbatim>\<open>INSERT\<close> binds the id first and the name second. A null id takes the largest id
  plus one (1 in an empty table); an integer id must be new. Column affinity is not
  modelled: values are stored as they are bound, and a text id is refused, as the engine
  refuses text that is not numeric. When
  the largest id is the largest 64-bit integer the engine would pick an unused id at
  random; the model reports that case as an error.
\<close>

definition next_rowid :: "table \<Rightarrow> int" where
  "next_rowid t = (case map fst t of [] \<Rightarrow> 1 | i # js \<Rightarrow> fold max js i + 1)"

definition insert_owner :: "table \<Rightarrow> sqlval list \<Rightarrow> exn + table" where
  "insert_owner t vals =
     (case vals of
        [] \<Rightarrow> Inl InterfaceError
      | rowid # cols \<Rightarrow>
          (case cols of
             [] \<Rightarrow> Inl InterfaceError
           | name # others \<Rightarrow>
               if name = SNull then Inl IntegrityError
               else if name \<in> set (map (\<lambda>r. hd (snd r)) t) then Inl IntegrityError
               else
                 (case rowid of
                    SNull \<Rightarrow>
                      if next_rowid t \<le> 9223372036854775807
                      then Inr (t @ [(next_rowid t, cols)]) else Inl OperationalError
                  | SInt i \<Rightarrow>
                      if i \<in> set (map fst t) then Inl IntegrityError else Inr (t @ [(i, cols)])
                  | SText s \<Rightarrow> Inl IntegrityError)))"

text \<open>
  A dependent table declares \<^verbatim>\<open>id INTEGER PRIMARY KEY AUTOINCREMENT\<close> and a foreign
  key; its \<^verbatim>\<open>INSERT\<close> never names the id, so the rows are numbered from 1. The engine
  does not enforce foreign keys unless a connection asks for it, and the generator
  does not: any value is accepted in the foreign-key column.
\<close>

definition insert_dependent :: "table \<Rightarrow> sqlval list \<Rightarrow> exn + table" where
  "insert_dependent t vals = Inr (t @ [(int (length t) + 1, vals)])"

text \<open>
  One insertion loop: \<^verbatim>\<open>for r in records: cursor.execute(INSERT ..., (r.get(k1), ...))\<close>.
\<close>

fun insert_rows ::
  "(table \<Rightarrow> sqlval list \<Rightarrow> exn + table) \<Rightarrow> string list \<Rightarrow> yaml list \<Rightarrow> table \<Rightarrow> exn + table" where
  "insert_rows ins cols [] t = Inr t"
| "insert_rows ins cols (r # rs) t =
     (case record_values r cols of
        Inl e \<Rightarrow> Inl e
      | Inr vs \<Rightarrow>
          (case bind_all vs of
             Inl e \<Rightarrow> Inl e
           | Inr bs \<Rightarrow>
               (case ins t bs of Inl e \<Rightarrow> Inl e | Inr t' \<Rightarrow> insert_rows ins cols rs t')))"

record database =
  parameters_table :: table
  breadcrumb_fields_table :: table
  vg5_fields_table :: table
  abbr_metrics_table :: table
  protocol_groups_table :: table
  protocols_table :: table

definition empty_database :: database where
  "empty_database =
     \<lparr> parameters_table = [], breadcrumb_fields_table = [], vg5_fields_table = [],
       abbr_metrics_table = [], protocol_groups_table = [], protocols_table = [] \<rparr>"

text \<open>The column lists of the six \<^verbatim>\<open>INSERT\<close> statements, in their order.\<close>

definition parameter_columns :: "string list" where
  "parameter_columns =
     [''id'', ''field_name'', ''reserved_enum_val'', ''description'', ''unit'',
      ''reason_added'', ''protobuf_field'', ''protocol_reference'']"

definition breadcrumb_columns :: "string list" where
  "breadcrumb_columns = [''parameter_id'', ''breadcrumb_link'', ''note'']"

definition vg5_columns :: "string list" where
  "vg5_columns = [''parameter_id'', ''vg5_link'']"

definition abbr_metric_columns :: "string list" where
  "abbr_metric_columns = [''parameter_id'', ''abbr_value'', ''abbr_link'', ''metrics_link'']"

definition group_columns :: "string list" where
  "group_columns = [''id'', ''group_name'', ''description'', ''parameter_reference'']"

definition protocol_columns :: "string list" where
  "protocol_columns =
     [''group_id'', ''abbr'', ''protocol_standard'', ''pgn_pid'', ''spn'', ''precision'',
      ''spec_range'', ''max_valid_val'', ''units'', ''description'', ''states'']"

definition insert_parameters_data :: "database \<Rightarrow> yaml \<Rightarrow> exn + database" where
  "insert_parameters_data db data =
     ebind (section_items data ''parameters'') (\<lambda>params.
     ebind (insert_rows insert_owner parameter_columns params (parameters_table db)) (\<lambda>t1.
     ebind (section_items data ''breadcrumb_fields'') (\<lambda>breadcrumbs.
     ebind (insert_rows insert_dependent breadcrumb_columns breadcrumbs
              (breadcrumb_fields_table db)) (\<lambda>t2.
     ebind (section_items data ''vg5_fields'') (\<lambda>vg5s.
     ebind (insert_rows insert_dependent vg5_columns vg5s (vg5_fields_table db)) (\<lambda>t3.
     ebind (section_items data ''abbr_metrics'') (\<lambda>abbrs.
     ebind (insert_rows insert_dependent abbr_metric_columns abbrs
              (abbr_metrics_table db)) (\<lambda>t4.
       Inr (db \<lparr> parameters_table := t1, breadcrumb_fields_table := t2,
                 vg5_fields_table := t3, abbr_metrics_table := t4 \<rparr>)))))))))"

definition insert_protocols_data :: "database \<Rightarrow> yaml \<Rightarrow> exn + database" where
  "insert_protocols_data db data =
     ebind (section_items data ''protocol_groups'') (\<lambda>groups.
     ebind (insert_rows insert_owner group_columns groups (protocol_groups_table db)) (\<lambda>t1.
     ebind (section_items data ''protocols'') (\<lambda>protocols.
     ebind (insert_rows insert_dependent protocol_columns protocols (protocols_table db)) (\<lambda>t2.
       Inr (db \<lparr> protocol_groups_table := t1, protocols_table := t2 \<rparr>)))))"

text \<open>
  \<^verbatim>\<open>generate_database\<close>: \<open>Inr db\<close> is the return \<^verbatim>\<open>(True, ...)\<close> with \<open>db\<close> committed,
  \<open>Inl e\<close> the return \<^verbatim>\<open>(False, ...)\<close> of the handler. The output path is taken to be
  writable; the previous artifact is deleted, so the tables start empty.
\<close>

definition generate_database :: "filesystem \<Rightarrow> string \<Rightarrow> string \<Rightarrow> exn + database" where
  "generate_database fs parameters_file protocols_file =
     ebind (open_safe_load fs parameters_file) (\<lambda>parameters_data.
     ebind (open_safe_load fs protocols_file) (\<lambda>protocols_data.
     ebind (insert_parameters_data empty_database parameters_data) (\<lambda>db.
       insert_protocols_data db protocols_data)))"

section \<open>Notions used in the statements\<close>

text \<open>
  A record that takes part in the bidirectional check: a mapping whose name and whose
  reference are both truthy, with that name and reference.
\<close>

definition linked :: "string \<Rightarrow> string \<Rightarrow> yaml \<Rightarrow> (yaml \<times> yaml) option" where
  "linked name_key ref_key r =
     (case py_get r name_key YNull of
        Inl e \<Rightarrow> None
      | Inr name \<Rightarrow>
          (case py_get r ref_key YNull of
             Inl e \<Rightarrow> None
           | Inr ref \<Rightarrow> if truthy name \<and> truthy ref then Some (name, ref) else None))"

text \<open>
  A record the map-building loops pass over: a mapping whose name or whose reference is
  falsy (absent, null or empty). A record that is not a mapping is not passed over: its
  \<^verbatim>\<open>get\<close> raises.
\<close>

definition skipped :: "string \<Rightarrow> string \<Rightarrow> yaml \<Rightarrow> bool" where
  "skipped name_key ref_key r =
     (case py_get r name_key YNull of
        Inl e \<Rightarrow> False
      | Inr name \<Rightarrow>
          (case py_get r ref_key YNull of
             Inl e \<Rightarrow> False
           | Inr ref \<Rightarrow> \<not> (truthy name \<and> truthy ref)))"

text \<open>Two records carry equal values under a key, and a record's value occurs once in a list.\<close>

definition same_name :: "string \<Rightarrow> yaml \<Rightarrow> yaml \<Rightarrow> bool" where
  "same_name name_key r r' =
     (case py_get r name_key YNull of
        Inl e \<Rightarrow> False
      | Inr a \<Rightarrow> (case py_get r' name_key YNull of Inl e \<Rightarrow> False | Inr b \<Rightarrow> py_eq a b))"

definition occurs_once :: "string \<Rightarrow> yaml \<Rightarrow> yaml list \<Rightarrow> bool" where
  "occurs_once name_key r rs = (length (filter (same_name name_key r) rs) = 1)"

text \<open>The positions of a list whose value already occurs at an earlier position.\<close>

definition later_occurrences :: "'a list \<Rightarrow> nat list" where
  "later_occurrences ks = filter (\<lambda>j. ks ! j \<in> set (take j ks)) [0..<length ks]"

text \<open>
  The value a record holds under a key (null when the key is absent), the positions of
  the records whose value under the key is equal to that of an earlier record of the
  list, and one message for each of these positions, in order: the messages a
  duplicate check is to give.
\<close>

definition field_of :: "string \<Rightarrow> yaml \<Rightarrow> yaml" where
  "field_of fld r = (case py_get r fld YNull of Inl e \<Rightarrow> YNull | Inr v \<Rightarrow> v)"

definition repeats :: "string \<Rightarrow> yaml list \<Rightarrow> nat list" where
  "repeats fld rs =
     filter (\<lambda>j. list_ex (\<lambda>i. same_name fld (rs ! i) (rs ! j)) [0..<j]) [0..<length rs]"

definition duplicate_messages :: "string \<Rightarrow> (yaml \<Rightarrow> message) \<Rightarrow> yaml list \<Rightarrow> message list" where
  "duplicate_messages fld mk rs = map (\<lambda>j. mk (field_of fld (rs ! j))) (repeats fld rs)"

text \<open>
  The invariant of a dictionary under construction: every hash key occurs once, and
  is the hash key of the key object stored with it.
\<close>

definition dict_inv :: "pydict \<Rightarrow> bool" where
  "dict_inv d = (distinct (map fst d) \<and> (\<forall>e \<in> set d. py_hash (fst (snd e)) = Inr (fst e)))"


text \<open>
  A row of an owning table holds a record: the values bound for the record's columns,
  the first of which (the id) is null or the row's id. A row of a dependent table
  holds the values bound for the record's columns.
\<close>

definition owner_row :: "string list \<Rightarrow> yaml \<Rightarrow> int \<times> sqlval list \<Rightarrow> bool" where
  "owner_row cols r row =
     (case ebind (record_values r cols) bind_all of
        Inl e \<Rightarrow> False
      | Inr bs \<Rightarrow>
          (case bs of
             [] \<Rightarrow> False
           | b # others \<Rightarrow> others = snd row \<and> (b = SNull \<or> b = SInt (fst row))))"

definition dependent_row :: "string list \<Rightarrow> yaml \<Rightarrow> int \<times> sqlval list \<Rightarrow> bool" where
  "dependent_row cols r row = (ebind (record_values r cols) bind_all = Inr (snd row))"

text \<open>
  Every foreign key of a dependent table (its first column) is null or the id of a row
  of the owning table.
\<close>

definition resolves :: "table \<Rightarrow> table \<Rightarrow> bool" where
  "resolves owning dependents =
     list_all (\<lambda>row. case snd row of
                        [] \<Rightarrow> False
                      | b # others \<Rightarrow>
                          (case b of
                             SNull \<Rightarrow> True
                           | SInt k \<Rightarrow> k \<in> set (map fst owning)
                           | SText s \<Rightarrow> False))
       dependents"

text \<open>
  The exception a computation raises, if any, and the exception of the first of a
  sequence of steps that raises.
\<close>

definition raised :: "exn + 'a \<Rightarrow> exn option" where
  "raised r = (case r of Inl e \<Rightarrow> Some e | Inr x \<Rightarrow> None)"

fun first_raised :: "exn option list \<Rightarrow> exn option" where
  "first_raised [] = None"
| "first_raised (s # steps) = (case s of Some e \<Rightarrow> Some e | None \<Rightarrow> first_raised steps)"








section \<open>Example documents\<close>

text \<open>
  A file system that holds the two documents under the default paths of
  \<^verbatim>\<open>validate_all\<close>, and nothing else.
\<close>

definition two_files :: "yaml \<Rightarrow> yaml \<Rightarrow> filesystem" where
  "two_files parameters_data protocols_data =
     (\<lambda>path. if path = ''data/parameters.yaml'' then Parsed parameters_data
             else if path = ''data/protocols.yaml'' then Parsed protocols_data
             else Missing)"

definition parameters_document ::
  "yaml list \<Rightarrow> yaml list \<Rightarrow> yaml list \<Rightarrow> yaml list \<Rightarrow> yaml" where
  "parameters_document params breadcrumbs vg5s abbrs =
     YMap [(''parameters'', YList params), (''breadcrumb_fields'', YList breadcrumbs),
           (''vg5_fields'', YList vg5s), (''abbr_metrics'', YList abbrs)]"

definition protocols_document :: "yaml list \<Rightarrow> yaml list \<Rightarrow> yaml" where
  "protocols_document groups entries =
     YMap [(''protocol_groups'', YList groups), (''protocols'', YList entries)]"

text \<open>
  The parameter and the group of Scenario A of the specification, and the group of
  Scenario B.
\<close>

definition engine_speed :: yaml where
  "engine_speed =
     YMap [(''id'', YInt 1), (''field_name'', YStr ''Engine Speed''),
           (''protocol_reference'', YStr ''ESPD_protocols''),
           (''protobuf_field'', YStr ''speed_engine_rpm''),
           (''reason_added'', YStr ''ELD Mandate'')]"

definition espd_group :: yaml where
  "espd_group =
     YMap [(''id'', YInt 1), (''group_name'', YStr ''ESPD_protocols''),
           (''parameter_reference'', YStr ''Engine Speed'')]"

definition road_speed_group :: yaml where
  "road_speed_group =
     YMap [(''id'', YInt 2), (''group_name'', YStr ''ESPD_protocols''),
           (''parameter_reference'', YStr ''Road Speed'')]"

text \<open>A parameter named like \<open>engine_speed\<close> that has no protocol reference.\<close>

definition unlinked_engine_speed :: yaml where
  "unlinked_engine_speed = YMap [(''id'', YInt 2), (''field_name'', YStr ''Engine Speed'')]"

text \<open>
  A world that holds the documents of Scenario A, a URL parser that always raises, a
  protocols schema that finds nothing, and a parameters schema that finds the given
  violations in every document.
\<close>

definition scenario_world :: "(string \<times> string) list \<Rightarrow> world" where
  "scenario_world violations =
     \<lparr> files = two_files (parameters_document [engine_speed] [] [] [])
                          (protocols_document [espd_group] []),
       parameters_schema = (\<lambda>data. Inr violations),
       protocols_schema = (\<lambda>data. Inr []),
       urlparse_of = (\<lambda>url. None) \<rparr>"

text \<open>
  A breadcrumb field of \<open>engine_speed\<close> and a protocol entry of \<open>espd_group\<close>, and the
  world that holds the documents of Scenario A with them.
\<close>

definition engine_breadcrumb :: yaml where
  "engine_breadcrumb = YMap [(''parameter_id'', YInt 1), (''note'', YStr ''rpm'')]"

definition espd_entry :: yaml where
  "espd_entry =
     YMap [(''group_id'', YInt 1), (''abbr'', YStr ''ESPD''), (''protocol_standard'', YStr ''J1939''),
           (''pgn_pid'', YStr ''61444'')]"

definition materialization_world :: world where
  "materialization_world =
     \<lparr> files = two_files (parameters_document [engine_speed] [engine_breadcrumb] [] [])
                          (protocols_document [espd_group] [espd_entry]),
       parameters_schema = (\<lambda>data. Inr []),
       protocols_schema = (\<lambda>data. Inr []),
       urlparse_of = (\<lambda>url. None) \<rparr>"

section \<open>Sequencing lemmas\<close>

lemma ebind_Inr_iff: "ebind m f = Inr y \<longleftrightarrow> (\<exists>x. m = Inr x \<and> f x = Inr y)"
  by (cases m) (simp_all add: ebind_def)

lemma ebind_Inl_iff: "ebind m f = Inl e \<longleftrightarrow> m = Inl e \<or> (\<exists>x. m = Inr x \<and> f x = Inl e)"
  by (cases m) (simp_all add: ebind_def)

lemma ebind_Inr [simp]: "ebind (Inr x) f = f x"
  by (simp add: ebind_def)

lemma ebind_Inl [simp]: "ebind (Inl e) f = Inl e"
  by (simp add: ebind_def)

lemma and_then_Inr_iff:
  "and_then a b = Inr zs \<longleftrightarrow> (\<exists>xs ys. a = Inr xs \<and> b = Inr ys \<and> zs = xs @ ys)"
  by (cases a; cases b) (auto simp: and_then_def)

lemma and_then_Inr [simp]: "and_then (Inr xs) (Inr ys) = Inr (xs @ ys)"
  by (simp add: and_then_def)

lemma and_then_Inl [simp]: "and_then (Inl e) b = Inl e"
  by (simp add: and_then_def)

lemma and_then_Inl2 [simp]: "and_then (Inr xs) (Inl e) = Inl e"
  by (simp add: and_then_def)

lemma collect_Inr_iff:
  "collect f xs = Inr ys \<longleftrightarrow> (\<exists>zss. map f xs = map Inr zss \<and> ys = concat zss)"
proof (induction xs arbitrary: ys)
  case Nil
  then show ?case by auto
next
  case (Cons x xs)
  show ?case
  proof (cases "f x")
    case (Inl e)
    then show ?thesis by (auto simp: map_eq_Cons_conv)
  next
    case (Inr zs)
    show ?thesis
    proof (cases "collect f xs")
      case (Inl e)
      with Cons.IH have "\<not> (\<exists>zss. map f xs = map Inr zss)"
        by (metis Inl_Inr_False)
      with Inl Inr show ?thesis by (auto simp: map_eq_Cons_conv)
    next
      case r: (Inr rest)
      with Cons.IH obtain zss where z: "map f xs = map Inr zss" "rest = concat zss"
        by blast
      have inj: "\<And>a b. map Inr a = (map Inr b :: (exn + 'c list) list) \<Longrightarrow> a = b"
        by (simp add: inj_map_eq_map)
      show ?thesis
      proof
        assume "collect f (x # xs) = Inr ys"
        with Inr r have "ys = zs @ rest" by simp
        with z Inr show "\<exists>zss. map f (x # xs) = map Inr zss \<and> ys = concat zss"
          by (intro exI [of _ "zs # zss"]) simp
      next
        assume "\<exists>zss. map f (x # xs) = map Inr zss \<and> ys = concat zss"
        then obtain zss' where z': "map f (x # xs) = map Inr zss'" "ys = concat zss'"
          by blast
        then obtain a as where as: "zss' = a # as" "f x = Inr a" "map f xs = map Inr as"
          by (auto simp: map_eq_Cons_conv Cons_eq_map_conv)
        with z inj have "as = zss" by metis
        with as z z' Inr r show "collect f (x # xs) = Inr ys" by simp
      qed
    qed
  qed
qed

lemma collect_Inr_elem:
  assumes "collect f xs = Inr ys" and "x \<in> set xs"
  shows "\<exists>zs. f x = Inr zs \<and> set zs \<subseteq> set ys"
proof -
  from assms(1) obtain zss where z: "map f xs = map Inr zss" "ys = concat zss"
    by (auto simp: collect_Inr_iff)
  from assms(2) obtain i where i: "i < length xs" "xs ! i = x"
    by (auto simp: in_set_conv_nth)
  from z(1) have len: "length zss = length xs"
    by (metis length_map)
  from z(1) i len have "f x = Inr (zss ! i)"
    by (metis nth_map)
  moreover from i len have "zss ! i \<in> set zss" by simp
  with z(2) have "set (zss ! i) \<subseteq> set ys" by auto
  ultimately show ?thesis by blast
qed

lemma collect_Nil_elem:
  assumes "collect f xs = Inr []" and "x \<in> set xs"
  shows "f x = Inr []"
  using collect_Inr_elem [OF assms] by auto

lemma outcome_Inr:
  "outcome passed failed (Inr errs) = (errs = [], if errs \<noteq> [] then errs else [passed])"
  by (simp add: outcome_def)

lemma outcome_Inl: "outcome passed failed (Inl e) = (False, [failed e])"
  by (simp add: outcome_def)

lemma outcome_valid_iff: "fst (outcome passed failed r) \<longleftrightarrow> r = Inr []"
  by (cases r) (auto simp: outcome_def)

section \<open>Bidirectional consistency: dictionaries and the two loops\<close>

lemma map_fst_dict_set:
  "map fst (dict_set d h k v) = (if h \<in> set (map fst d) then map fst d else map fst d @ [h])"
  by (induction d h k v rule: dict_set.induct) auto

lemma map_of_dict_set:
  "map_of (dict_set d h k v) h' =
     (if h' = h then Some (case map_of d h of None \<Rightarrow> k | Some kv \<Rightarrow> fst kv, v) else map_of d h')"
  by (induction d h k v rule: dict_set.induct) auto

lemma set_dict_set:
  "e \<in> set (dict_set d h k v) \<Longrightarrow> e \<in> set d \<or> fst e = h \<and> (fst (snd e) = k \<or> (\<exists>e' \<in> set d. fst e' = h \<and> fst (snd e') = fst (snd e)))"
  by (induction d h k v rule: dict_set.induct) (auto split: if_splits)

lemma dict_inv_dict_set:
  assumes "dict_inv d" and "py_hash k = Inr h"
  shows "dict_inv (dict_set d h k v)"
  unfolding dict_inv_def
proof (intro conjI ballI)
  show "distinct (map fst (dict_set d h k v))"
    using assms(1) by (simp add: map_fst_dict_set dict_inv_def)
next
  fix e assume "e \<in> set (dict_set d h k v)"
  from set_dict_set [OF this] assms show "py_hash (fst (snd e)) = Inr (fst e)"
    by (auto simp: dict_inv_def)
qed

lemma build_links_inv:
  "build_links nk rk rs d = Inr d' \<Longrightarrow> dict_inv d \<Longrightarrow> dict_inv d'"
proof (induction rs arbitrary: d)
  case Nil
  then show ?case by simp
next
  case (Cons r rs)
  then show ?case
    by (auto split: sum.splits if_splits intro: dict_inv_dict_set)
qed

lemma linked_Some_iff:
  "linked nk rk r = Some (n, v) \<longleftrightarrow>
     py_get r nk YNull = Inr n \<and> py_get r rk YNull = Inr v \<and> truthy n \<and> truthy v"
  by (auto simp: linked_def split: sum.splits)

lemma build_links_lookup:
  assumes "build_links nk rk rs d = Inr d'"
    and "\<forall>r\<in>set rs. \<forall>n v. linked nk rk r = Some (n, v) \<and> py_hash n = Inr h \<longrightarrow> n = g \<and> v = x"
    and "map_of d h = None \<or> map_of d h = Some (g, x)"
  shows "map_of d' h =
           (if \<exists>r\<in>set rs. \<exists>n v. linked nk rk r = Some (n, v) \<and> py_hash n = Inr h
            then Some (g, x) else map_of d h)"
  using assms
proof (induction rs arbitrary: d)
  case Nil
  then show ?case by simp
next
  case (Cons r rs)
  from Cons.prems(1) obtain n v where nv: "py_get r nk YNull = Inr n" "py_get r rk YNull = Inr v"
    by (auto split: sum.splits)
  have rest: "\<forall>r\<in>set rs. \<forall>n v. linked nk rk r = Some (n, v) \<and> py_hash n = Inr h \<longrightarrow> n = g \<and> v = x"
    using Cons.prems(2) by (meson list.set_intros(2))
  show ?case
  proof (cases "truthy n \<and> truthy v")
    case False
    with nv have nl: "linked nk rk r = None" by (auto simp: linked_def)
    from False nv Cons.prems(1) have "build_links nk rk rs d = Inr d'" by auto
    from Cons.IH [OF this rest Cons.prems(3)] nl show ?thesis by simp
  next
    case True
    with nv have l: "linked nk rk r = Some (n, v)" by (simp add: linked_Some_iff)
    from True nv Cons.prems(1) obtain h0 where h0: "py_hash n = Inr h0"
      and b: "build_links nk rk rs (dict_set d h0 n v) = Inr d'"
      by (auto split: sum.splits)
    show ?thesis
    proof (cases "h0 = h")
      case True
      with l h0 Cons.prems(2) have eq: "n = g" "v = x" by auto
      from True eq Cons.prems(3) have "map_of (dict_set d h0 n v) h = Some (g, x)"
        by (auto simp: map_of_dict_set)
      with Cons.IH [OF b rest] have "map_of d' h = Some (g, x)" by simp
      moreover from l h0 True have "\<exists>r\<in>set (r # rs). \<exists>n v. linked nk rk r = Some (n, v) \<and> py_hash n = Inr h"
        by auto
      ultimately show ?thesis by simp
    next
      case False
      then have m: "map_of (dict_set d h0 n v) h = map_of d h"
        by (simp add: map_of_dict_set)
      with Cons.prems(3) have "map_of (dict_set d h0 n v) h = None \<or> map_of (dict_set d h0 n v) h = Some (g, x)"
        by simp
      from Cons.IH [OF b rest this] m l h0 False show ?thesis by auto
    qed
  qed
qed

lemma occurs_once_unique:
  assumes "occurs_once nk R rs" and "R \<in> set rs" and "r \<in> set rs"
    and "py_get R nk YNull = Inr a" and "py_hash a = Inr h"
    and "py_get r nk YNull = Inr n" and "py_hash n = Inr h"
  shows "r = R"
proof -
  have "same_name nk R R" using assms by (simp add: same_name_def py_eq_def)
  moreover have "same_name nk R r" using assms by (simp add: same_name_def py_eq_def)
  ultimately have a: "R \<in> set (filter (same_name nk R) rs)"
    and b: "r \<in> set (filter (same_name nk R) rs)"
    using assms(2,3) by auto
  from assms(1) obtain y where fy: "filter (same_name nk R) rs = [y]"
    by (auto simp: occurs_once_def length_Suc_conv)
  from a have "R \<in> set [y]" unfolding fy .
  moreover from b have "r \<in> set [y]" unfolding fy .
  ultimately show ?thesis by simp
qed

lemma dict_entry:
  assumes "dict_inv d" and "map_of d h = Some (k, v)"
  shows "(h, k, v) \<in> set d \<and> py_hash k = Inr h"
proof -
  from assms(2) have "(h, k, v) \<in> set d" by (rule map_of_SomeD)
  with assms(1) show ?thesis by (auto simp: dict_inv_def)
qed


lemma py_eq_iff: "py_eq a b \<longleftrightarrow> (\<exists>h. py_hash a = Inr h \<and> py_hash b = Inr h)"
  by (cases "py_hash a") (auto simp: py_eq_def)

lemma py_hash_truthy: "py_hash a = Inr h \<Longrightarrow> py_hash b = Inr h \<Longrightarrow> truthy a = truthy b"
  by (cases a; cases b) (auto split: if_splits)

lemma occurs_once_hashable:
  assumes "occurs_once nk R rs" and "py_get R nk YNull = Inr a"
  shows "\<exists>h. py_hash a = Inr h"
proof -
  from assms(1) obtain y where fy: "filter (same_name nk R) rs = [y]"
    by (auto simp: occurs_once_def length_Suc_conv)
  have "y \<in> set (filter (same_name nk R) rs)" unfolding fy by simp
  then have "same_name nk R y" by simp
  with assms(2) show ?thesis
    by (auto simp: same_name_def py_eq_iff split: sum.splits)
qed

lemma build_links_unique:
  assumes b: "build_links nk rk rs [] = Inr d"
    and once: "occurs_once nk R rs" and R: "R \<in> set rs"
    and n: "py_get R nk YNull = Inr a" and v: "py_get R rk YNull = Inr x"
    and h: "py_hash a = Inr h" and t: "truthy a"
  shows "map_of d h = (if truthy x then Some (a, x) else None)"
proof -
  have u: "\<forall>r\<in>set rs. \<forall>n v. linked nk rk r = Some (n, v) \<and> py_hash n = Inr h \<longrightarrow> n = a \<and> v = x"
  proof (intro ballI allI impI)
    fix r n' v' assume r: "r \<in> set rs" and l: "linked nk rk r = Some (n', v') \<and> py_hash n' = Inr h"
    then have "py_get r nk YNull = Inr n'" by (simp add: linked_Some_iff)
    from occurs_once_unique [OF once R r n h this] l have "r = R" by simp
    with l n v show "n' = a \<and> v' = x" by (simp add: linked_Some_iff)
  qed
  have ex: "(\<exists>r\<in>set rs. \<exists>n v. linked nk rk r = Some (n, v) \<and> py_hash n = Inr h) \<longleftrightarrow> truthy x"
  proof
    assume "\<exists>r\<in>set rs. \<exists>n v. linked nk rk r = Some (n, v) \<and> py_hash n = Inr h"
    then obtain r n' v' where r: "r \<in> set rs" and l: "linked nk rk r = Some (n', v')" "py_hash n' = Inr h"
      by blast
    from l have "py_get r nk YNull = Inr n'" by (simp add: linked_Some_iff)
    from occurs_once_unique [OF once R r n h this l(2)] have "r = R" .
    with l v show "truthy x" by (simp add: linked_Some_iff)
  next
    assume "truthy x"
    with n v t have "linked nk rk R = Some (a, x)" by (simp add: linked_Some_iff)
    with R h show "\<exists>r\<in>set rs. \<exists>n v. linked nk rk r = Some (n, v) \<and> py_hash n = Inr h" by blast
  qed
  from build_links_lookup [OF b u] ex show ?thesis by simp
qed

lemma dict_inv_Nil: "dict_inv []"
  by (simp add: dict_inv_def)

lemma bidirectional_errors_unfold:
  assumes "bidirectional_errors pd gd = Inr errs"
    and "section_items pd ''parameters'' = Inr ps"
    and "section_items gd ''protocol_groups'' = Inr gs"
  shows "\<exists>p2g g2p e1 e2.
           build_links ''field_name'' ''protocol_reference'' ps [] = Inr p2g \<and>
           build_links ''group_name'' ''parameter_reference'' gs [] = Inr g2p \<and>
           collect (check_param_link g2p) p2g = Inr e1 \<and>
           collect (check_group_link p2g) g2p = Inr e2 \<and> errs = e1 @ e2"
  using assms by (auto simp: bidirectional_errors_def ebind_Inr_iff and_then_Inr_iff)

lemma valid_bidirectional_errors:
  assumes "fst (validate_bidirectional_consistency fs pf gf)"
    and "fs pf = Parsed pd" and "fs gf = Parsed gd"
  shows "bidirectional_errors pd gd = Inr []"
  using assms
  by (simp add: validate_bidirectional_consistency_def outcome_valid_iff load_yaml_file_def)

lemmas example_defs = two_files_def parameters_document_def protocols_document_def
  engine_speed_def espd_group_def road_speed_group_def unlinked_engine_speed_def

text \<open>
  Claim C1, as the code has it. Let \<^verbatim>\<open>validate_bidirectional_consistency\<close> return valid
  on two loaded documents. Let \<open>P\<close> be a parameter and \<open>G\<close> a protocol group whose own
  names (\<^verbatim>\<open>field_name\<close>, \<^verbatim>\<open>group_name\<close>) are truthy and occur once in their lists.
  Then the protocol reference of \<open>P\<close> equals the group name of \<open>G\<close> exactly when the
  parameter reference of \<open>G\<close> equals the field name of \<open>P\<close>: the two links exist
  together or not at all.
\<close>

theorem bidirectional_law:
  assumes valid: "fst (validate_bidirectional_consistency fs parameters_file protocols_file)"
    and files: "fs parameters_file = Parsed pd" "fs protocols_file = Parsed gd"
    and lists: "section_items pd ''parameters'' = Inr ps"
               "section_items gd ''protocol_groups'' = Inr gs"
    and P: "P \<in> set ps" "py_get P ''field_name'' YNull = Inr field_name"
           "py_get P ''protocol_reference'' YNull = Inr protocol_reference"
    and G: "G \<in> set gs" "py_get G ''group_name'' YNull = Inr group_name"
           "py_get G ''parameter_reference'' YNull = Inr parameter_reference"
    and named: "truthy field_name" "truthy group_name"
    and once: "occurs_once ''field_name'' P ps" "occurs_once ''group_name'' G gs"
  shows "py_eq protocol_reference group_name \<longleftrightarrow> py_eq parameter_reference field_name"
proof -
  from valid_bidirectional_errors [OF valid files] have "bidirectional_errors pd gd = Inr []" .
  from bidirectional_errors_unfold [OF this lists] obtain p2g g2p where
    bp: "build_links ''field_name'' ''protocol_reference'' ps [] = Inr p2g" and
    bg: "build_links ''group_name'' ''parameter_reference'' gs [] = Inr g2p" and
    cp: "collect (check_param_link g2p) p2g = Inr []" and
    cg: "collect (check_group_link p2g) g2p = Inr []"
    by auto
  from occurs_once_hashable [OF once(1) P(2)] obtain hP where hP: "py_hash field_name = Inr hP" ..
  from occurs_once_hashable [OF once(2) G(2)] obtain hG where hG: "py_hash group_name = Inr hG" ..
  have mp: "map_of p2g hP = (if truthy protocol_reference then Some (field_name, protocol_reference) else None)"
    by (rule build_links_unique [OF bp once(1) P(1) P(2) P(3) hP named(1)])
  have mg: "map_of g2p hG = (if truthy parameter_reference then Some (group_name, parameter_reference) else None)"
    by (rule build_links_unique [OF bg once(2) G(1) G(2) G(3) hG named(2)])
  have ip: "dict_inv p2g" by (rule build_links_inv [OF bp dict_inv_Nil])
  have ig: "dict_inv g2p" by (rule build_links_inv [OF bg dict_inv_Nil])
  show ?thesis
  proof
    assume e: "py_eq protocol_reference group_name"
    with hG have hr: "py_hash protocol_reference = Inr hG" by (auto simp: py_eq_iff)
    from py_hash_truthy [OF hr hG] named(2) have tr: "truthy protocol_reference" by simp
    with mp have "map_of p2g hP = Some (field_name, protocol_reference)" by simp
    from dict_entry [OF ip this] have "(hP, field_name, protocol_reference) \<in> set p2g" by simp
    from collect_Nil_elem [OF cp this]
    have "check_param_link g2p (hP, field_name, protocol_reference) = Inr []" .
    with hr mg show "py_eq parameter_reference field_name"
      by (auto simp: check_param_link_def dict_get_def split: if_splits option.splits)
  next
    assume e: "py_eq parameter_reference field_name"
    with hP have hr: "py_hash parameter_reference = Inr hP" by (auto simp: py_eq_iff)
    from py_hash_truthy [OF hr hP] named(1) have tr: "truthy parameter_reference" by simp
    with mg have "map_of g2p hG = Some (group_name, parameter_reference)" by simp
    from dict_entry [OF ig this] have "(hG, group_name, parameter_reference) \<in> set g2p" by simp
    from collect_Nil_elem [OF cg this]
    have "check_group_link p2g (hG, group_name, parameter_reference) = Inr []" .
    with hr mp show "py_eq protocol_reference group_name"
      by (auto simp: check_group_link_def dict_get_def split: if_splits option.splits)
  qed
qed


text \<open>The documents of Scenario A satisfy the hypotheses of the law.\<close>

theorem bidirectional_law_witness:
  "fst (validate_bidirectional_consistency
          (two_files (parameters_document [engine_speed] [] [] []) (protocols_document [espd_group] []))
          ''data/parameters.yaml'' ''data/protocols.yaml'') \<and>
   (py_eq (YStr ''ESPD_protocols'') (YStr ''ESPD_protocols'') \<longleftrightarrow>
    py_eq (YStr ''Engine Speed'') (YStr ''Engine Speed''))"
proof -
  let ?fs = "two_files (parameters_document [engine_speed] [] [] []) (protocols_document [espd_group] [])"
  have v: "fst (validate_bidirectional_consistency ?fs ''data/parameters.yaml'' ''data/protocols.yaml'')"
    by code_simp
  have f1: "?fs ''data/parameters.yaml'' = Parsed (parameters_document [engine_speed] [] [] [])"
    by (simp add: two_files_def)
  have f2: "?fs ''data/protocols.yaml'' = Parsed (protocols_document [espd_group] [])"
    by (simp add: two_files_def)
  have l1: "section_items (parameters_document [engine_speed] [] [] []) ''parameters'' = Inr [engine_speed]"
    by (simp add: parameters_document_def section_items_def)
  have l2: "section_items (protocols_document [espd_group] []) ''protocol_groups'' = Inr [espd_group]"
    by (simp add: protocols_document_def section_items_def)
  have p: "engine_speed \<in> set [engine_speed]"
    "py_get engine_speed ''field_name'' YNull = Inr (YStr ''Engine Speed'')"
    "py_get engine_speed ''protocol_reference'' YNull = Inr (YStr ''ESPD_protocols'')"
    by (simp_all add: engine_speed_def)
  have g: "espd_group \<in> set [espd_group]"
    "py_get espd_group ''group_name'' YNull = Inr (YStr ''ESPD_protocols'')"
    "py_get espd_group ''parameter_reference'' YNull = Inr (YStr ''Engine Speed'')"
    by (simp_all add: espd_group_def)
  have t: "truthy (YStr ''Engine Speed'')" "truthy (YStr ''ESPD_protocols'')"
    by simp_all
  have o: "occurs_once ''field_name'' engine_speed [engine_speed]"
    "occurs_once ''group_name'' espd_group [espd_group]"
    by (simp_all add: occurs_once_def same_name_def engine_speed_def espd_group_def py_eq_def)
  from v bidirectional_law [OF v f1 f2 l1 l2 p g t o] show ?thesis
    by (rule conjI)
qed

text \<open>
  Claim C1 as stated fails. With two groups of one name the later assignment replaces
  the earlier one in the dictionary: the parameter refers to the group name of
  \<open>road_speed_group\<close>, that group refers to another parameter, and the check is valid.
  A parameter with no field name never enters the dictionary: it may refer to a group
  that refers to another parameter, and the check is valid.
\<close>

theorem bidirectional_law_counterexample:
  "fst (validate_bidirectional_consistency
          (two_files (parameters_document [engine_speed] [] [] [])
                     (protocols_document [road_speed_group, espd_group] []))
          ''data/parameters.yaml'' ''data/protocols.yaml'') \<and>
   py_get engine_speed ''protocol_reference'' YNull = py_get road_speed_group ''group_name'' YNull \<and>
   py_get road_speed_group ''parameter_reference'' YNull \<noteq> py_get engine_speed ''field_name'' YNull \<and>
   fst (validate_bidirectional_consistency
          (two_files (parameters_document
                        [YMap [(''protocol_reference'', YStr ''ESPD_protocols'')], engine_speed]
                        [] [] [])
                     (protocols_document [espd_group] []))
          ''data/parameters.yaml'' ''data/protocols.yaml'') \<and>
   py_get (YMap [(''protocol_reference'', YStr ''ESPD_protocols'')]) ''protocol_reference'' YNull =
     py_get espd_group ''group_name'' YNull \<and>
   py_get espd_group ''parameter_reference'' YNull \<noteq>
     py_get (YMap [(''protocol_reference'', YStr ''ESPD_protocols'')]) ''field_name'' YNull"
  by (simp add: example_defs validate_bidirectional_consistency_def load_yaml_file_def
      bidirectional_errors_def section_items_def check_param_link_def check_group_link_def
      outcome_def dict_get_def py_eq_def)

lemma build_links_keys:
  "build_links nk rk rs d = Inr d' \<Longrightarrow> e \<in> set d' \<Longrightarrow>
   (\<exists>e'\<in>set d. fst (snd e') = fst (snd e)) \<or>
   (\<exists>r\<in>set rs. \<exists>v. linked nk rk r = Some (fst (snd e), v))"
proof (induction rs arbitrary: d)
  case Nil
  then show ?case by auto
next
  case (Cons r rs)
  from Cons.prems(1) obtain n v where nv: "py_get r nk YNull = Inr n" "py_get r rk YNull = Inr v"
    by (auto split: sum.splits)
  show ?case
  proof (cases "truthy n \<and> truthy v")
    case False
    with nv Cons.prems(1) have "build_links nk rk rs d = Inr d'" by auto
    from Cons.IH [OF this Cons.prems(2)] show ?thesis by auto
  next
    case True
    with nv have l: "linked nk rk r = Some (n, v)" by (simp add: linked_Some_iff)
    from True nv Cons.prems(1) obtain h0 where
      b: "build_links nk rk rs (dict_set d h0 n v) = Inr d'"
      by (auto split: sum.splits)
    from Cons.IH [OF b Cons.prems(2)] show ?thesis
    proof
      assume "\<exists>e'\<in>set (dict_set d h0 n v). fst (snd e') = fst (snd e)"
      then obtain e' where e': "e' \<in> set (dict_set d h0 n v)" "fst (snd e') = fst (snd e)"
        by blast
      from set_dict_set [OF e'(1)] e'(2) l show ?thesis
        by (metis list.set_intros(1))
    next
      assume "\<exists>r\<in>set rs. \<exists>v. linked nk rk r = Some (fst (snd e), v)"
      then show ?thesis by auto
    qed
  qed
qed

lemma collect_mem:
  assumes "collect f xs = Inr ys" and "y \<in> set ys"
  shows "\<exists>x\<in>set xs. \<exists>zs. f x = Inr zs \<and> y \<in> set zs"
proof -
  from assms(1) obtain zss where z: "map f xs = map Inr zss" "ys = concat zss"
    by (auto simp: collect_Inr_iff)
  from assms(2) z(2) obtain zs where zs: "zs \<in> set zss" "y \<in> set zs" by auto
  then obtain i where i: "i < length zss" "zss ! i = zs" by (auto simp: in_set_conv_nth)
  from z(1) have len: "length xs = length zss" by (metis length_map)
  with z(1) i have "f (xs ! i) = Inr zs" by (metis nth_map)
  with i len zs show ?thesis by (metis nth_mem)
qed

lemma check_group_link_msgs:
  "check_group_link d e = Inr zs \<Longrightarrow> y \<in> set zs \<Longrightarrow>
   y = BidiParamMissing (fst (snd e)) (snd (snd e)) \<or> y = BidiParamDiffers (fst (snd e)) (snd (snd e))"
  by (cases e) (auto simp: check_group_link_def ebind_Inr_iff split: option.splits if_splits)

lemma check_param_link_msgs:
  "check_param_link d e = Inr zs \<Longrightarrow> y \<in> set zs \<Longrightarrow>
   (\<exists>x. y = BidiMismatch (fst (snd e)) (snd (snd e)) x) \<or> y = BidiGroupMissing (fst (snd e)) (snd (snd e))"
  by (cases e) (auto simp: check_param_link_def ebind_Inr_iff split: option.splits if_splits)

lemma build_links_skipped:
  "build_links nk rk (filter (\<lambda>r. \<not> skipped nk rk r) rs) d = build_links nk rk rs d"
  by (induction rs arbitrary: d) (auto simp: skipped_def split: sum.splits)

lemma bidirectional_errors_skipped:
  assumes "section_items pd ''parameters'' = Inr ps"
    and "section_items gd ''protocol_groups'' = Inr gs"
    and "section_items pd' ''parameters'' =
           Inr (filter (\<lambda>r. \<not> skipped ''field_name'' ''protocol_reference'' r) ps)"
    and "section_items gd' ''protocol_groups'' =
           Inr (filter (\<lambda>r. \<not> skipped ''group_name'' ''parameter_reference'' r) gs)"
  shows "bidirectional_errors pd' gd' = bidirectional_errors pd gd"
  using assms by (simp add: bidirectional_errors_def build_links_skipped)

lemma bidirectional_reports:
  assumes run: "bidirectional_errors pd gd = Inr errs"
    and lists: "section_items pd ''parameters'' = Inr ps"
               "section_items gd ''protocol_groups'' = Inr gs"
  shows "(\<forall>G g x.
            G \<in> set gs \<and> linked ''group_name'' ''parameter_reference'' G = Some (g, x) \<and>
            occurs_once ''group_name'' G gs \<and>
            (\<forall>p\<in>set ps. \<forall>n v. linked ''field_name'' ''protocol_reference'' p = Some (n, v) \<longrightarrow>
                                 \<not> py_eq n x) \<longrightarrow>
            BidiParamMissing g x \<in> set errs) \<and>
         (\<forall>n v e.
            BidiMismatch n v e \<in> set errs \<or> BidiGroupMissing n v \<in> set errs \<longrightarrow>
            (\<exists>p\<in>set ps. \<exists>v'. linked ''field_name'' ''protocol_reference'' p = Some (n, v')))"
proof -
  from bidirectional_errors_unfold [OF run lists] obtain p2g g2p e1 e2 where
    bp: "build_links ''field_name'' ''protocol_reference'' ps [] = Inr p2g" and
    bg: "build_links ''group_name'' ''parameter_reference'' gs [] = Inr g2p" and
    cp: "collect (check_param_link g2p) p2g = Inr e1" and
    cg: "collect (check_group_link p2g) g2p = Inr e2" and
    errs: "errs = e1 @ e2"
    by blast
  have ip: "dict_inv p2g" by (rule build_links_inv [OF bp dict_inv_Nil])
  have ig: "dict_inv g2p" by (rule build_links_inv [OF bg dict_inv_Nil])
  have b: "\<forall>G g x.
            G \<in> set gs \<and> linked ''group_name'' ''parameter_reference'' G = Some (g, x) \<and>
            occurs_once ''group_name'' G gs \<and>
            (\<forall>p\<in>set ps. \<forall>n v. linked ''field_name'' ''protocol_reference'' p = Some (n, v) \<longrightarrow>
                                 \<not> py_eq n x) \<longrightarrow>
            BidiParamMissing g x \<in> set errs"
  proof (intro allI impI)
    fix G g x
    assume H: "G \<in> set gs \<and> linked ''group_name'' ''parameter_reference'' G = Some (g, x) \<and>
            occurs_once ''group_name'' G gs \<and>
            (\<forall>p\<in>set ps. \<forall>n v. linked ''field_name'' ''protocol_reference'' p = Some (n, v) \<longrightarrow>
                                 \<not> py_eq n x)"
    then have G: "G \<in> set gs" and once: "occurs_once ''group_name'' G gs"
      and gn: "py_get G ''group_name'' YNull = Inr g"
      and gr: "py_get G ''parameter_reference'' YNull = Inr x"
      and tg: "truthy g" and tx: "truthy x"
      and none: "\<forall>p\<in>set ps. \<forall>n v. linked ''field_name'' ''protocol_reference'' p = Some (n, v) \<longrightarrow> \<not> py_eq n x"
      by (simp_all add: linked_Some_iff)
    from occurs_once_hashable [OF once gn] obtain hG where hG: "py_hash g = Inr hG" ..
    from build_links_unique [OF bg once G gn gr hG tg] tx
    have "map_of g2p hG = Some (g, x)" by simp
    from dict_entry [OF ig this] have ent: "(hG, g, x) \<in> set g2p" by simp
    from collect_Inr_elem [OF cg ent] obtain zs where
      zs: "check_group_link p2g (hG, g, x) = Inr zs" "set zs \<subseteq> set e2" by blast
    from zs(1) obtain hx where hx: "py_hash x = Inr hx"
      by (auto simp: check_group_link_def ebind_Inr_iff)
    have "map_of p2g hx = None"
    proof -
      have u: "\<forall>r\<in>set ps. \<forall>n v. linked ''field_name'' ''protocol_reference'' r = Some (n, v) \<and>
                 py_hash n = Inr hx \<longrightarrow> n = YNull \<and> v = YNull"
        using none hx by (auto simp: py_eq_iff)
      have "\<not> (\<exists>r\<in>set ps. \<exists>n v. linked ''field_name'' ''protocol_reference'' r = Some (n, v) \<and>
                 py_hash n = Inr hx)"
        using none hx by (auto simp: py_eq_iff)
      with build_links_lookup [OF bp u] show ?thesis by simp
    qed
    with zs(1) hx have "zs = [BidiParamMissing g x]"
      by (auto simp: check_group_link_def dict_get_def)
    with zs(2) errs show "BidiParamMissing g x \<in> set errs" by auto
  qed
  have c: "\<forall>n v e.
            BidiMismatch n v e \<in> set errs \<or> BidiGroupMissing n v \<in> set errs \<longrightarrow>
            (\<exists>p\<in>set ps. \<exists>v'. linked ''field_name'' ''protocol_reference'' p = Some (n, v'))"
  proof (intro allI impI)
    fix n v e
    assume H: "BidiMismatch n v e \<in> set errs \<or> BidiGroupMissing n v \<in> set errs"
    have not2: "BidiMismatch n v e \<notin> set e2 \<and> BidiGroupMissing n v \<notin> set e2"
      using collect_mem [OF cg] check_group_link_msgs by blast
    with H errs obtain y where y: "y \<in> set e1" "y = BidiMismatch n v e \<or> y = BidiGroupMissing n v"
      by auto
    from collect_mem [OF cp y(1)] obtain ent zs where
      ent: "ent \<in> set p2g" "check_param_link g2p ent = Inr zs" "y \<in> set zs" by blast
    from check_param_link_msgs [OF ent(2,3)] y(2) have "fst (snd ent) = n" by auto
    with build_links_keys [OF bp ent(1)] show "\<exists>p\<in>set ps. \<exists>v'. linked ''field_name'' ''protocol_reference'' p = Some (n, v')"
      by auto
  qed
  from b c show ?thesis by (rule conjI)
qed

text \<open>
  Claim C10, as the code has it. On two loaded documents whose \<^verbatim>\<open>parameters\<close> and
  \<^verbatim>\<open>protocol_groups\<close> lists can be read:
  \<^item> The check considers only records with both fields: it returns the same result
    (the same flag and messages, or the same exception message) on documents from which
    every parameter that lacks a truthy \<^verbatim>\<open>field_name\<close> or \<^verbatim>\<open>protocol_reference\<close>, and
    every group that lacks a truthy \<^verbatim>\<open>group_name\<close> or \<^verbatim>\<open>parameter_reference\<close>, is
    removed.
  \<^item> When the check completes without raising, with the errors \<open>errs\<close>, it returns
    these errors, and valid only when there are none; and for every group with both
    fields whose group name occurs once, and whose parameter reference is the field name
    of no parameter that has a protocol reference, it reports that the parameter does
    not exist.
  \<^item> Every parameter named in a returned message about a parameter's link is a
    parameter that has both fields: one without a protocol reference is never reported.
\<close>

theorem bidirectional_scope:
  assumes files: "fs parameters_file = Parsed pd" "fs protocols_file = Parsed gd"
    and lists: "section_items pd ''parameters'' = Inr ps"
               "section_items gd ''protocol_groups'' = Inr gs"
  shows "(\<forall>fs' pd' gd'.
            fs' parameters_file = Parsed pd' \<and> fs' protocols_file = Parsed gd' \<and>
            section_items pd' ''parameters'' =
              Inr (filter (\<lambda>r. \<not> skipped ''field_name'' ''protocol_reference'' r) ps) \<and>
            section_items gd' ''protocol_groups'' =
              Inr (filter (\<lambda>r. \<not> skipped ''group_name'' ''parameter_reference'' r) gs) \<longrightarrow>
            validate_bidirectional_consistency fs' parameters_file protocols_file =
              validate_bidirectional_consistency fs parameters_file protocols_file) \<and>
         (\<forall>errs. bidirectional_errors pd gd = Inr errs \<longrightarrow>
            validate_bidirectional_consistency fs parameters_file protocols_file =
              (errs = [], if errs \<noteq> [] then errs else [BidiPassed]) \<and>
            (\<forall>G g x.
               G \<in> set gs \<and> linked ''group_name'' ''parameter_reference'' G = Some (g, x) \<and>
               occurs_once ''group_name'' G gs \<and>
               (\<forall>p\<in>set ps. \<forall>n v. linked ''field_name'' ''protocol_reference'' p = Some (n, v) \<longrightarrow>
                                    \<not> py_eq n x) \<longrightarrow>
               BidiParamMissing g x \<in> set errs)) \<and>
         (\<forall>n v e.
            BidiMismatch n v e \<in>
              set (snd (validate_bidirectional_consistency fs parameters_file protocols_file)) \<or>
            BidiGroupMissing n v \<in>
              set (snd (validate_bidirectional_consistency fs parameters_file protocols_file)) \<longrightarrow>
            (\<exists>p\<in>set ps. \<exists>v'. linked ''field_name'' ''protocol_reference'' p = Some (n, v')))"
proof (intro conjI allI impI)
  fix fs' pd' gd'
  assume a: "fs' parameters_file = Parsed pd' \<and> fs' protocols_file = Parsed gd' \<and>
            section_items pd' ''parameters'' =
              Inr (filter (\<lambda>r. \<not> skipped ''field_name'' ''protocol_reference'' r) ps) \<and>
            section_items gd' ''protocol_groups'' =
              Inr (filter (\<lambda>r. \<not> skipped ''group_name'' ''parameter_reference'' r) gs)"
  then have "bidirectional_errors pd' gd' = bidirectional_errors pd gd"
    using bidirectional_errors_skipped [OF lists] by simp
  with a files
  show "validate_bidirectional_consistency fs' parameters_file protocols_file =
          validate_bidirectional_consistency fs parameters_file protocols_file"
    by (simp add: validate_bidirectional_consistency_def load_yaml_file_def)
next
  fix errs assume run: "bidirectional_errors pd gd = Inr errs"
  with files
  show "validate_bidirectional_consistency fs parameters_file protocols_file =
          (errs = [], if errs \<noteq> [] then errs else [BidiPassed])"
    by (simp add: validate_bidirectional_consistency_def load_yaml_file_def outcome_Inr)
next
  fix errs G g x
  assume run: "bidirectional_errors pd gd = Inr errs"
    and h: "G \<in> set gs \<and> linked ''group_name'' ''parameter_reference'' G = Some (g, x) \<and>
               occurs_once ''group_name'' G gs \<and>
               (\<forall>p\<in>set ps. \<forall>n v. linked ''field_name'' ''protocol_reference'' p = Some (n, v) \<longrightarrow>
                                    \<not> py_eq n x)"
  from bidirectional_reports [OF run lists, THEN conjunct1, THEN spec, THEN spec, THEN spec] h
  show "BidiParamMissing g x \<in> set errs" by (rule mp)
next
  fix n v e
  let ?result = "validate_bidirectional_consistency fs parameters_file protocols_file"
  assume h: "BidiMismatch n v e \<in> set (snd ?result) \<or> BidiGroupMissing n v \<in> set (snd ?result)"
  have res: "?result = outcome BidiPassed BidiError (bidirectional_errors pd gd)"
    using files by (simp add: validate_bidirectional_consistency_def load_yaml_file_def)
  show "\<exists>p\<in>set ps. \<exists>v'. linked ''field_name'' ''protocol_reference'' p = Some (n, v')"
  proof (cases "bidirectional_errors pd gd")
    case (Inl x)
    with h res show ?thesis by (simp add: outcome_Inl)
  next
    case (Inr errs)
    with h res have h': "BidiMismatch n v e \<in> set errs \<or> BidiGroupMissing n v \<in> set errs"
      by (cases "errs = []") (simp_all add: outcome_Inr)
    from bidirectional_reports [OF Inr lists, THEN conjunct2, THEN spec, THEN spec, THEN spec] h'
    show ?thesis by (rule mp)
  qed
qed

text \<open>
  A group that refers to a parameter without a protocol reference: removing the
  parameter does not change the result, and the group is reported.
\<close>

theorem bidirectional_scope_witness:
  "validate_bidirectional_consistency
     (two_files (parameters_document [] [] [] []) (protocols_document [espd_group] []))
     ''data/parameters.yaml'' ''data/protocols.yaml'' =
   validate_bidirectional_consistency
     (two_files (parameters_document [unlinked_engine_speed] [] [] [])
                (protocols_document [espd_group] []))
     ''data/parameters.yaml'' ''data/protocols.yaml'' \<and>
   validate_bidirectional_consistency
     (two_files (parameters_document [unlinked_engine_speed] [] [] [])
                (protocols_document [espd_group] []))
     ''data/parameters.yaml'' ''data/protocols.yaml'' =
     (False, [BidiParamMissing (YStr ''ESPD_protocols'') (YStr ''Engine Speed'')]) \<and>
   BidiParamMissing (YStr ''ESPD_protocols'') (YStr ''Engine Speed'') \<in>
     set [BidiParamMissing (YStr ''ESPD_protocols'') (YStr ''Engine Speed'')]"
proof -
  let ?pd = "parameters_document [unlinked_engine_speed] [] [] []"
  let ?pd' = "parameters_document [] [] [] []"
  let ?gd = "protocols_document [espd_group] []"
  let ?errs = "[BidiParamMissing (YStr ''ESPD_protocols'') (YStr ''Engine Speed'')]"
  have f: "two_files ?pd ?gd ''data/parameters.yaml'' = Parsed ?pd"
    "two_files ?pd ?gd ''data/protocols.yaml'' = Parsed ?gd"
    by (simp_all add: two_files_def)
  have run: "bidirectional_errors ?pd ?gd = Inr ?errs"
    by (simp add: example_defs bidirectional_errors_def section_items_def check_group_link_def
        dict_get_def)
  have l: "section_items ?pd ''parameters'' = Inr [unlinked_engine_speed]"
    "section_items ?gd ''protocol_groups'' = Inr [espd_group]"
    by (simp_all add: parameters_document_def protocols_document_def section_items_def)
  note th = bidirectional_scope [where fs = "two_files ?pd ?gd"
      and parameters_file = "''data/parameters.yaml''" and protocols_file = "''data/protocols.yaml''",
      OF f l]
  have s: "two_files ?pd' ?gd ''data/parameters.yaml'' = Parsed ?pd' \<and>
      two_files ?pd' ?gd ''data/protocols.yaml'' = Parsed ?gd \<and>
      section_items ?pd' ''parameters'' =
        Inr (filter (\<lambda>r. \<not> skipped ''field_name'' ''protocol_reference'' r) [unlinked_engine_speed]) \<and>
      section_items ?gd ''protocol_groups'' =
        Inr (filter (\<lambda>r. \<not> skipped ''group_name'' ''parameter_reference'' r) [espd_group])"
    by (simp add: two_files_def parameters_document_def protocols_document_def section_items_def
        skipped_def unlinked_engine_speed_def espd_group_def)
  from th [THEN conjunct1, THEN spec, THEN spec, THEN spec] s
  have a: "validate_bidirectional_consistency (two_files ?pd' ?gd)
      ''data/parameters.yaml'' ''data/protocols.yaml'' =
      validate_bidirectional_consistency (two_files ?pd ?gd)
      ''data/parameters.yaml'' ''data/protocols.yaml''"
    by (rule mp)
  note r = th [THEN conjunct2, THEN conjunct1, THEN spec, THEN mp, OF run]
  have h: "espd_group \<in> set [espd_group] \<and>
      linked ''group_name'' ''parameter_reference'' espd_group =
        Some (YStr ''ESPD_protocols'', YStr ''Engine Speed'') \<and>
      occurs_once ''group_name'' espd_group [espd_group] \<and>
      (\<forall>p\<in>set [unlinked_engine_speed]. \<forall>n v.
          linked ''field_name'' ''protocol_reference'' p = Some (n, v) \<longrightarrow>
          \<not> py_eq n (YStr ''Engine Speed''))"
    by (simp add: linked_def occurs_once_def same_name_def py_eq_def espd_group_def
        unlinked_engine_speed_def)
  from r [THEN conjunct2, THEN spec, THEN spec, THEN spec] h
  have b: "BidiParamMissing (YStr ''ESPD_protocols'') (YStr ''Engine Speed'') \<in> set ?errs"
    by (rule mp)
  from r [THEN conjunct1] have c: "validate_bidirectional_consistency (two_files ?pd ?gd)
     ''data/parameters.yaml'' ''data/protocols.yaml'' = (False, ?errs)"
    by simp
  from a c b show ?thesis by (intro conjI)
qed

text \<open>
  Claim C10 as stated fails on a repeated field name: the parameter reference of the
  group names a parameter that is in the list and has no protocol reference, a second
  parameter of that name has one, and the check reports nothing. Nor is such a group
  reported when it has no group name (the guard passes it over), when a later group of
  the same name replaces its entry in the map, or when another record makes the check
  raise.
\<close>

theorem bidirectional_scope_counterexample:
  "validate_bidirectional_consistency
     (two_files (parameters_document [unlinked_engine_speed, engine_speed] [] [] [])
                (protocols_document [espd_group] []))
     ''data/parameters.yaml'' ''data/protocols.yaml'' = (True, [BidiPassed]) \<and>
   py_get espd_group ''parameter_reference'' YNull =
     py_get unlinked_engine_speed ''field_name'' YNull \<and>
   py_get unlinked_engine_speed ''protocol_reference'' YNull = Inr YNull \<and>
   validate_bidirectional_consistency
     (two_files (parameters_document [unlinked_engine_speed] [] [] [])
                (protocols_document [YMap [(''parameter_reference'', YStr ''Engine Speed'')]] []))
     ''data/parameters.yaml'' ''data/protocols.yaml'' = (True, [BidiPassed]) \<and>
   validate_bidirectional_consistency
     (two_files
        (parameters_document
           [engine_speed, YMap [(''id'', YInt 2), (''field_name'', YStr ''Road Speed'')]] [] [] [])
        (protocols_document [road_speed_group, espd_group] []))
     ''data/parameters.yaml'' ''data/protocols.yaml'' = (True, [BidiPassed]) \<and>
   validate_bidirectional_consistency
     (two_files (parameters_document [unlinked_engine_speed, YStr ''oops''] [] [] [])
                (protocols_document [espd_group] []))
     ''data/parameters.yaml'' ''data/protocols.yaml'' = (False, [BidiError AttributeError])"
  by code_simp

section \<open>Duplicate detection\<close>

lemma dup_positions_Cons:
  "filter (\<lambda>j. (k # ks) ! j \<in> set seen \<union> set (take j (k # ks))) [0..<length (k # ks)] =
     (if k \<in> set seen
      then 0 # map Suc (filter (\<lambda>j. ks ! j \<in> set seen \<union> set (take j ks)) [0..<length ks])
      else map Suc (filter (\<lambda>j. ks ! j \<in> set (k # seen) \<union> set (take j ks)) [0..<length ks]))"
proof -
  have u: "[0..<length (k # ks)] = 0 # map Suc [0..<length ks]"
    by (simp add: upt_conv_Cons map_Suc_upt del: upt_Suc)
  have i: "k \<in> set seen \<Longrightarrow> insert k (set seen) = set seen" by auto
  show ?thesis
    unfolding u by (auto simp: filter_map comp_def i intro!: filter_cong)
qed

lemma duplicate_scan_positions:
  assumes "map (\<lambda>r. py_get r fld YNull) rs = map Inr vs" and "map py_hash vs = map Inr ks"
  shows "duplicate_scan fld mk rs seen =
           Inr (map (\<lambda>j. mk (vs ! j))
                  (filter (\<lambda>j. ks ! j \<in> set seen \<union> set (take j ks)) [0..<length ks]))"
  using assms
proof (induction rs arbitrary: vs ks seen)
  case Nil
  then show ?case by simp
next
  case (Cons r rs)
  from Cons.prems(1) obtain v vs' where v: "vs = v # vs'" "py_get r fld YNull = Inr v"
    "map (\<lambda>r. py_get r fld YNull) rs = map Inr vs'"
    by (auto simp: Cons_eq_map_conv)
  with Cons.prems(2) obtain k ks' where k: "ks = k # ks'" "py_hash v = Inr k"
    "map py_hash vs' = map Inr ks'"
    by (auto simp: Cons_eq_map_conv)
  note IH = Cons.IH [OF v(3) k(3)]
  show ?case
    unfolding v(1) k(1) dup_positions_Cons
    using v(2) k(2) IH by (simp add: comp_def)
qed

lemma later_occurrences_mem:
  "j \<in> set (later_occurrences ks) \<longleftrightarrow> j < length ks \<and> (\<exists>i<j. ks ! i = ks ! j)"
proof -
  have "j < length ks \<Longrightarrow> ks ! j \<in> set (take j ks) \<longleftrightarrow> (\<exists>i<j. ks ! i = ks ! j)"
    by (auto simp: in_set_conv_nth)
  then show ?thesis by (auto simp: later_occurrences_def)
qed

lemma duplicate_scan_spec:
  assumes "map (\<lambda>r. py_get r fld YNull) rs = map Inr vs" and "map py_hash vs = map Inr ks"
  shows "duplicate_scan fld mk rs [] = Inr (map (\<lambda>j. mk (vs ! j)) (later_occurrences ks))"
  using duplicate_scan_positions [OF assms, of mk "[]"] by (simp add: later_occurrences_def)


lemma py_getitem_contains: "py_getitem doc k = Inr v \<Longrightarrow> py_contains doc k = Inr True"
  by (cases doc) (auto split: option.splits)

lemma duplicate_scan_fields:
  "duplicate_scan fld mk rs seen = Inr es \<Longrightarrow>
   \<exists>vs ks. map (\<lambda>r. py_get r fld YNull) rs = map Inr vs \<and> map py_hash vs = map Inr ks"
proof (induction rs arbitrary: seen es)
  case Nil
  then show ?case by simp
next
  case (Cons r rs)
  from Cons.prems obtain v h where v: "py_get r fld YNull = Inr v" and h: "py_hash v = Inr h"
    by (auto split: sum.splits)
  from Cons.prems v h obtain seen' es' where "duplicate_scan fld mk rs seen' = Inr es'"
    by (auto split: sum.splits if_splits)
  from Cons.IH [OF this] obtain vs ks where
    "map (\<lambda>r. py_get r fld YNull) rs = map Inr vs" "map py_hash vs = map Inr ks" by blast
  with v h have "map (\<lambda>r. py_get r fld YNull) (r # rs) = map Inr (v # vs) \<and>
      map py_hash (v # vs) = map Inr (h # ks)" by simp
  then show ?case by blast
qed

lemma repeats_later_occurrences:
  assumes fields: "map (\<lambda>r. py_get r fld YNull) rs = map Inr vs"
    and keys: "map py_hash vs = map Inr ks"
  shows "duplicate_messages fld mk rs = map (\<lambda>j. mk (vs ! j)) (later_occurrences ks)"
proof -
  from fields have lv: "length vs = length rs" by (metis length_map)
  from keys have lk: "length ks = length vs" by (metis length_map)
  have g: "\<And>j. j < length rs \<Longrightarrow> py_get (rs ! j) fld YNull = Inr (vs ! j)"
    using fields lv by (metis nth_map)
  have h: "\<And>j. j < length rs \<Longrightarrow> py_hash (vs ! j) = Inr (ks ! j)"
    using keys lv lk by (metis nth_map)
  have same: "\<And>i j. i < j \<Longrightarrow> j < length rs \<Longrightarrow>
      same_name fld (rs ! i) (rs ! j) \<longleftrightarrow> ks ! i = ks ! j"
  proof -
    fix i j :: nat assume "i < j" "j < length rs"
    then have "i < length rs" by simp
    with g h \<open>j < length rs\<close> show "same_name fld (rs ! i) (rs ! j) \<longleftrightarrow> ks ! i = ks ! j"
      by (auto simp: same_name_def py_eq_def)
  qed
  have "repeats fld rs = later_occurrences ks"
    unfolding repeats_def later_occurrences_def lk lv
  proof (rule filter_cong [OF refl])
    fix j assume "j \<in> set [0..<length rs]"
    then have j: "j < length rs" by simp
    have "list_ex (\<lambda>i. same_name fld (rs ! i) (rs ! j)) [0..<j] \<longleftrightarrow> (\<exists>i<j. ks ! i = ks ! j)"
      using same j by (auto simp: list_ex_iff)
    also have "\<dots> \<longleftrightarrow> ks ! j \<in> set (take j ks)"
      using j lk lv by (auto simp: in_set_conv_nth)
    finally show "list_ex (\<lambda>i. same_name fld (rs ! i) (rs ! j)) [0..<j] = (ks ! j \<in> set (take j ks))" .
  qed
  moreover have "\<And>j. j \<in> set (later_occurrences ks) \<Longrightarrow> field_of fld (rs ! j) = vs ! j"
    using g lk lv by (simp add: later_occurrences_mem field_of_def)
  ultimately show ?thesis by (simp add: duplicate_messages_def)
qed

lemma duplicate_scan_messages:
  assumes "duplicate_scan fld mk rs [] = Inr es"
  shows "es = duplicate_messages fld mk rs"
proof -
  from duplicate_scan_fields [OF assms] obtain vs ks where
    f: "map (\<lambda>r. py_get r fld YNull) rs = map Inr vs" and k: "map py_hash vs = map Inr ks"
    by blast
  from duplicate_scan_spec [OF f k, of mk] assms repeats_later_occurrences [OF f k, of mk]
  show ?thesis by simp
qed

lemma repeats_mem:
  "j \<in> set (repeats fld rs) \<longleftrightarrow> j < length rs \<and> (\<exists>i<j. same_name fld (rs ! i) (rs ! j))"
  by (auto simp: repeats_def list_ex_iff)

lemma parameters_business_errors_duplicates:
  assumes g: "py_getitem doc ''parameters'' = Inr params"
    and r: "parameters_business_errors up doc = Inr errs"
  shows "\<exists>xs ys p q p' q'. check_duplicate_parameter_ids params = Inr xs \<and>
           check_duplicate_parameter_names params = Inr ys \<and>
           errs = p @ xs @ q \<and> errs = p' @ ys @ q'"
proof -
  obtain rest1 rest2 where e: "parameters_business_errors up doc =
      and_then (and_then (check_duplicate_parameter_ids params)
                 (and_then (check_duplicate_parameter_names params) rest1)) rest2"
    using py_getitem_contains [OF g] g by (simp add: parameters_business_errors_def)
  from r [unfolded e] obtain i n r1 r2 where
    d: "check_duplicate_parameter_ids params = Inr i"
       "check_duplicate_parameter_names params = Inr n" "errs = (i @ (n @ r1)) @ r2"
    by (auto simp: and_then_Inr_iff)
  from d(3) have "errs = [] @ i @ (n @ r1 @ r2)" "errs = i @ n @ (r1 @ r2)" by simp_all
  with d(1,2) show ?thesis by blast
qed

lemma protocols_business_errors_duplicates:
  assumes g: "py_getitem doc ''protocol_groups'' = Inr groups"
    and r: "protocols_business_errors doc = Inr errs"
  shows "\<exists>xs ys p q p' q'. check_duplicate_group_ids groups = Inr xs \<and>
           check_duplicate_group_names groups = Inr ys \<and>
           errs = p @ xs @ q \<and> errs = p' @ ys @ q'"
proof -
  obtain rest2 where e: "protocols_business_errors doc =
      and_then (and_then (check_duplicate_group_ids groups)
                 (check_duplicate_group_names groups)) rest2"
    using py_getitem_contains [OF g] g by (simp add: protocols_business_errors_def)
  from r [unfolded e] obtain i n r2 where
    d: "check_duplicate_group_ids groups = Inr i"
       "check_duplicate_group_names groups = Inr n" "errs = (i @ n) @ r2"
    by (auto simp: and_then_Inr_iff)
  from d(3) have "errs = [] @ i @ (n @ r2)" "errs = i @ n @ r2" by simp_all
  with d(1,2) show ?thesis by blast
qed

lemma duplicates_in_errors:
  assumes kind: "(list_key, fld, mk, check) \<in>
        {(''parameters'', ''id'', DuplicateParameterId, check_duplicate_parameter_ids),
         (''parameters'', ''field_name'', DuplicateParameterName, check_duplicate_parameter_names),
         (''protocol_groups'', ''id'', DuplicateGroupId, check_duplicate_group_ids),
         (''protocol_groups'', ''group_name'', DuplicateGroupName, check_duplicate_group_names)}"
    and records: "py_getitem doc list_key = Inr v" and items: "py_iter v = Inr rs"
    and run: "(if list_key = ''parameters'' then parameters_business_errors up doc
               else protocols_business_errors doc) = Inr errs"
  shows "check v = Inr (duplicate_messages fld mk rs) \<and>
         (\<exists>p q. errs = p @ duplicate_messages fld mk rs @ q)"
proof -
  from kind have
    "(list_key = ''parameters'' \<and> fld = ''id'' \<and> mk = DuplicateParameterId \<and>
        check = check_duplicate_parameter_ids) \<or>
     (list_key = ''parameters'' \<and> fld = ''field_name'' \<and> mk = DuplicateParameterName \<and>
        check = check_duplicate_parameter_names) \<or>
     (list_key = ''protocol_groups'' \<and> fld = ''id'' \<and> mk = DuplicateGroupId \<and>
        check = check_duplicate_group_ids) \<or>
     (list_key = ''protocol_groups'' \<and> fld = ''group_name'' \<and> mk = DuplicateGroupName \<and>
        check = check_duplicate_group_names)"
    by (simp only: insert_iff empty_iff prod.inject simp_thms)
  then show ?thesis
  proof (elim disjE conjE)
    assume k: "list_key = ''parameters''" "fld = ''id''" "mk = DuplicateParameterId"
      "check = check_duplicate_parameter_ids"
    from run k have r: "parameters_business_errors up doc = Inr errs" by simp
    from parameters_business_errors_duplicates [OF records [unfolded k] r] obtain xs p q where
      x: "check_duplicate_parameter_ids v = Inr xs" "errs = p @ xs @ q" by blast
    from x(1) items have "duplicate_scan ''id'' DuplicateParameterId rs [] = Inr xs"
      by (simp add: check_duplicate_parameter_ids_def)
    from duplicate_scan_messages [OF this] x k show ?thesis by blast
  next
    assume k: "list_key = ''parameters''" "fld = ''field_name''" "mk = DuplicateParameterName"
      "check = check_duplicate_parameter_names"
    from run k have r: "parameters_business_errors up doc = Inr errs" by simp
    from parameters_business_errors_duplicates [OF records [unfolded k] r] obtain xs p q where
      x: "check_duplicate_parameter_names v = Inr xs" "errs = p @ xs @ q" by blast
    from x(1) items have "duplicate_scan ''field_name'' DuplicateParameterName rs [] = Inr xs"
      by (simp add: check_duplicate_parameter_names_def)
    from duplicate_scan_messages [OF this] x k show ?thesis by blast
  next
    assume k: "list_key = ''protocol_groups''" "fld = ''id''" "mk = DuplicateGroupId"
      "check = check_duplicate_group_ids"
    from run k have r: "protocols_business_errors doc = Inr errs" by simp
    from protocols_business_errors_duplicates [OF records [unfolded k] r] obtain xs p q where
      x: "check_duplicate_group_ids v = Inr xs" "errs = p @ xs @ q" by blast
    from x(1) items have "duplicate_scan ''id'' DuplicateGroupId rs [] = Inr xs"
      by (simp add: check_duplicate_group_ids_def)
    from duplicate_scan_messages [OF this] x k show ?thesis by blast
  next
    assume k: "list_key = ''protocol_groups''" "fld = ''group_name''" "mk = DuplicateGroupName"
      "check = check_duplicate_group_names"
    from run k have r: "protocols_business_errors doc = Inr errs" by simp
    from protocols_business_errors_duplicates [OF records [unfolded k] r] obtain xs p q where
      x: "check_duplicate_group_names v = Inr xs" "errs = p @ xs @ q" by blast
    from x(1) items have "duplicate_scan ''group_name'' DuplicateGroupName rs [] = Inr xs"
      by (simp add: check_duplicate_group_names_def)
    from duplicate_scan_messages [OF this] x k show ?thesis by blast
  qed
qed

text \<open>
  Claim C3, as the code has it. Let a loaded document hold a list of records under
  \<^verbatim>\<open>parameters\<close> or \<^verbatim>\<open>protocol_groups\<close>, and take one of the four duplicate checks
  (of \<^verbatim>\<open>id\<close>, or of \<^verbatim>\<open>field_name\<close> or \<^verbatim>\<open>group_name\<close>).
  \<^item> When two records of the list carry equal values of the field, rule validation of
    the document returns invalid.
  \<^item> When rule validation completes without raising, with the errors \<open>errs\<close>, it
    returns \<open>errs\<close>; the duplicate check has returned one message for every record whose
    value occurs at an earlier record, in document order, and none for a first
    occurrence; and \<open>errs\<close> contains these messages as one run.
  Two messages for the same repeated value are equal as texts: they are separate
  entries of the list.
\<close>

theorem duplicates_reported:
  assumes kind: "(list_key, fld, mk, check) \<in>
        {(''parameters'', ''id'', DuplicateParameterId, check_duplicate_parameter_ids),
         (''parameters'', ''field_name'', DuplicateParameterName, check_duplicate_parameter_names),
         (''protocol_groups'', ''id'', DuplicateGroupId, check_duplicate_group_ids),
         (''protocol_groups'', ''group_name'', DuplicateGroupName, check_duplicate_group_names)}"
    and loaded: "fs path = Parsed doc"
    and records: "py_getitem doc list_key = Inr v" and items: "py_iter v = Inr rs"
  shows "(\<forall>i j. i < j \<and> j < length rs \<and> same_name fld (rs ! i) (rs ! j) \<longrightarrow>
            \<not> fst (if list_key = ''parameters''
                   then validate_parameters_business_logic fs up path
                   else validate_protocols_business_logic fs path)) \<and>
         (\<forall>errs. (if list_key = ''parameters'' then parameters_business_errors up doc
                   else protocols_business_errors doc) = Inr errs \<longrightarrow>
            (if list_key = ''parameters''
             then validate_parameters_business_logic fs up path
             else validate_protocols_business_logic fs path) =
              (errs = [], if errs \<noteq> [] then errs else [CustomPassed]) \<and>
            check v = Inr (duplicate_messages fld mk rs) \<and>
            (\<exists>p q. errs = p @ duplicate_messages fld mk rs @ q))"
proof -
  let ?body = "if list_key = ''parameters'' then parameters_business_errors up doc
               else protocols_business_errors doc"
  let ?result = "if list_key = ''parameters''
                 then validate_parameters_business_logic fs up path
                 else validate_protocols_business_logic fs path"
  have res: "?result = outcome CustomPassed CustomError ?body"
    using loaded
    by (simp add: validate_parameters_business_logic_def validate_protocols_business_logic_def
        open_safe_load_def)
  have invalid: "\<forall>i j. i < j \<and> j < length rs \<and> same_name fld (rs ! i) (rs ! j) \<longrightarrow> \<not> fst ?result"
  proof (intro allI impI notI)
    fix i j
    assume d: "i < j \<and> j < length rs \<and> same_name fld (rs ! i) (rs ! j)" and v: "fst ?result"
    from v res have b: "?body = Inr []" by (simp add: outcome_valid_iff)
    from duplicates_in_errors [OF kind records items b]
    have "duplicate_messages fld mk rs = []" by simp
    then have "repeats fld rs = []" by (simp add: duplicate_messages_def)
    moreover from d have "j \<in> set (repeats fld rs)" by (auto simp: repeats_mem)
    ultimately show False by simp
  qed
  have rep: "\<forall>errs. ?body = Inr errs \<longrightarrow>
      ?result = (errs = [], if errs \<noteq> [] then errs else [CustomPassed]) \<and>
      check v = Inr (duplicate_messages fld mk rs) \<and>
      (\<exists>p q. errs = p @ duplicate_messages fld mk rs @ q)"
  proof (intro allI impI)
    fix errs assume b: "?body = Inr errs"
    from duplicates_in_errors [OF kind records items b] res b
    show "?result = (errs = [], if errs \<noteq> [] then errs else [CustomPassed]) \<and>
      check v = Inr (duplicate_messages fld mk rs) \<and>
      (\<exists>p q. errs = p @ duplicate_messages fld mk rs @ q)"
      by (simp add: outcome_Inr)
  qed
  from invalid rep show ?thesis by (rule conjI)
qed


text \<open>Two parameters with the id 1 satisfy the hypotheses.\<close>

theorem duplicates_reported_witness:
  "\<not> fst (validate_parameters_business_logic
            (two_files (parameters_document
                          [engine_speed, YMap [(''id'', YInt 1), (''field_name'', YStr ''Road Speed'')]]
                          [] [] [])
                       (protocols_document [espd_group] []))
            (\<lambda>url. None) ''data/parameters.yaml'') \<and>
   validate_parameters_business_logic
     (two_files (parameters_document
                   [engine_speed, YMap [(''id'', YInt 1), (''field_name'', YStr ''Road Speed'')]]
                   [] [] [])
                (protocols_document [espd_group] []))
     (\<lambda>url. None) ''data/parameters.yaml'' = (False, [DuplicateParameterId (YInt 1)]) \<and>
   check_duplicate_parameter_ids
     (YList [engine_speed, YMap [(''id'', YInt 1), (''field_name'', YStr ''Road Speed'')]]) =
     Inr [DuplicateParameterId (YInt 1)]"
proof -
  let ?rs = "[engine_speed, YMap [(''id'', YInt 1), (''field_name'', YStr ''Road Speed'')]]"
  let ?doc = "parameters_document ?rs [] [] []"
  let ?fs = "two_files ?doc (protocols_document [espd_group] [])"
  have kind: "(''parameters'', ''id'', DuplicateParameterId, check_duplicate_parameter_ids) \<in>
        {(''parameters'', ''id'', DuplicateParameterId, check_duplicate_parameter_ids),
         (''parameters'', ''field_name'', DuplicateParameterName, check_duplicate_parameter_names),
         (''protocol_groups'', ''id'', DuplicateGroupId, check_duplicate_group_ids),
         (''protocol_groups'', ''group_name'', DuplicateGroupName, check_duplicate_group_names)}"
    by simp
  have loaded: "?fs ''data/parameters.yaml'' = Parsed ?doc"
    by (simp add: two_files_def)
  have records: "py_getitem ?doc ''parameters'' = Inr (YList ?rs)"
    by (simp add: parameters_document_def)
  have items: "py_iter (YList ?rs) = Inr ?rs"
    by simp
  have run: "parameters_business_errors (\<lambda>url. None) ?doc = Inr [DuplicateParameterId (YInt 1)]"
    by code_simp
  have msgs: "duplicate_messages ''id'' DuplicateParameterId ?rs = [DuplicateParameterId (YInt 1)]"
    by (simp add: duplicate_messages_def repeats_def field_of_def same_name_def py_eq_def
        engine_speed_def upt_rec)
  have twice: "(0::nat) < 1 \<and> 1 < length ?rs \<and> same_name ''id'' (?rs ! 0) (?rs ! 1)"
    by (simp add: same_name_def py_eq_def engine_speed_def)
  note th = duplicates_reported [where fs = ?fs and path = "''data/parameters.yaml''"
      and up = "\<lambda>url. None", OF kind loaded records items]
  from th [THEN conjunct1, THEN spec, THEN spec, THEN mp, OF twice]
  have a: "\<not> fst (validate_parameters_business_logic ?fs (\<lambda>url. None) ''data/parameters.yaml'')"
    by simp
  from th [THEN conjunct2, THEN spec, of "[DuplicateParameterId (YInt 1)]"] run
  have b: "validate_parameters_business_logic ?fs (\<lambda>url. None) ''data/parameters.yaml'' =
             (False, [DuplicateParameterId (YInt 1)]) \<and>
           check_duplicate_parameter_ids (YList ?rs) = Inr [DuplicateParameterId (YInt 1)]"
    by (simp add: msgs)
  from a b show ?thesis by (intro conjI) simp_all
qed

text \<open>
  Claim C3 as stated fails. Two parameters have the id 1; the second has an integer as
  \<^verbatim>\<open>protocol_reference\<close>, on which \<^verbatim>\<open>endswith\<close> raises. The duplicate, reported when
  the reference is absent, is not reported: the one handler around the whole function
  replaces every message by that of the exception.
\<close>

theorem duplicates_reported_counterexample:
  "validate_parameters_business_logic
     (two_files
        (parameters_document
           [YMap [(''id'', YInt 1), (''field_name'', YStr ''Engine Speed'')],
            YMap [(''id'', YInt 1), (''field_name'', YStr ''Road Speed''),
                  (''protocol_reference'', YInt 5)]]
           [] [] [])
        (protocols_document [espd_group] []))
     (\<lambda>url. None) ''data/parameters.yaml'' = (False, [CustomError AttributeError]) \<and>
   validate_parameters_business_logic
     (two_files
        (parameters_document
           [YMap [(''id'', YInt 1), (''field_name'', YStr ''Engine Speed'')],
            YMap [(''id'', YInt 1), (''field_name'', YStr ''Road Speed'')]]
           [] [] [])
        (protocols_document [espd_group] []))
     (\<lambda>url. None) ''data/parameters.yaml'' = (False, [DuplicateParameterId (YInt 1)])"
  by code_simp

section \<open>Foreign keys\<close>

lemma gather_keys_mem:
  "gather_keys fld keep rs = Inr hs \<Longrightarrow> h \<in> set hs \<Longrightarrow>
   \<exists>r\<in>set rs. \<exists>x. py_get r fld YNull = Inr x \<and> keep x \<and> py_hash x = Inr h"
proof (induction rs arbitrary: hs)
  case Nil
  then show ?case by simp
next
  case (Cons r rs)
  from Cons.prems(1) obtain x where x: "py_get r fld YNull = Inr x"
    by (auto split: sum.splits)
  show ?case
  proof (cases "keep x")
    case False
    with x Cons.prems(1) have "gather_keys fld keep rs = Inr hs" by simp
    from Cons.IH [OF this Cons.prems(2)] show ?thesis by auto
  next
    case True
    with x Cons.prems(1) obtain h0 hs' where h0: "py_hash x = Inr h0"
      "gather_keys fld keep rs = Inr hs'" "hs = h0 # hs'"
      by (auto split: sum.splits)
    show ?thesis
    proof (cases "h = h0")
      case True
      with x \<open>keep x\<close> h0(1) show ?thesis by auto
    next
      case False
      with Cons.prems(2) h0(3) have "h \<in> set hs'" by simp
      from Cons.IH [OF h0(2) this] show ?thesis by auto
    qed
  qed
qed

lemma foreign_key_loop_reports:
  assumes loop: "foreign_key_loop doc list_key fk mk ids = Inr es"
    and records: "section_items doc list_key = Inr rs"
    and i: "i < length rs" and v: "py_get (rs ! i) fk YNull = Inr v" and nn: "v \<noteq> YNull"
    and dangling: "\<forall>h. py_hash v = Inr h \<longrightarrow> h \<notin> set ids"
  shows "mk (i + 1) v \<in> set es"
proof -
  from loop records have c: "collect (check_foreign_key fk mk ids) (enumerate 0 rs) = Inr es"
    by (simp add: foreign_key_loop_def)
  from i have "(i, rs ! i) \<in> set (enumerate 0 rs)"
    by (simp add: in_set_enumerate_eq)
  from collect_Inr_elem [OF c this] obtain zs where
    zs: "check_foreign_key fk mk ids (i, rs ! i) = Inr zs" "set zs \<subseteq> set es" by blast
  from zs(1) v nn dangling have "zs = [mk (i + 1) v]"
    by (auto simp: check_foreign_key_def not_none_def ebind_Inr_iff split: if_splits)
  with zs(2) show ?thesis by auto
qed

lemma dangling_in_errors:
  assumes loaded: "fs parameters_file = Parsed pd" "fs protocols_file = Parsed gd"
    and run: "cross_reference_errors pd gd = Inr errs"
    and kind: "(doc, list_key, fk, owner_key, mk) \<in>
        {(pd, ''breadcrumb_fields'', ''parameter_id'', ''parameters'', BreadcrumbDangling),
         (pd, ''vg5_fields'', ''parameter_id'', ''parameters'', Vg5Dangling),
         (pd, ''abbr_metrics'', ''parameter_id'', ''parameters'', AbbrMetricDangling),
         (gd, ''protocols'', ''group_id'', ''protocol_groups'', ProtocolDangling)}"
    and records: "section_items doc list_key = Inr rs"
    and owners: "section_items doc owner_key = Inr owning"
    and dependent: "i < length rs" "py_get (rs ! i) fk YNull = Inr v" "v \<noteq> YNull"
    and dangling: "\<forall>r\<in>set owning. \<forall>x. py_get r ''id'' YNull = Inr x \<longrightarrow> \<not> py_eq x v"
  shows "validate_cross_references fs parameters_file protocols_file = (False, errs) \<and>
         mk (i + 1) v \<in> set errs"
proof -
  from run obtain e1 e2 e3 e4 where
    e3: "validate_internal_parameter_refs pd = Inr e3" and
    e4: "validate_internal_protocol_refs gd = Inr e4" and
    errs: "errs = e1 @ e2 @ e3 @ e4"
    by (auto simp: cross_reference_errors_def and_then_Inr_iff)
  have no_id: "\<And>ids h. gather_keys ''id'' not_none owning = Inr ids \<Longrightarrow> py_hash v = Inr h \<Longrightarrow> h \<notin> set ids"
  proof
    fix ids h assume g: "gather_keys ''id'' not_none owning = Inr ids" and h: "py_hash v = Inr h"
      and m: "h \<in> set ids"
    from gather_keys_mem [OF g m] obtain r x where
      "r \<in> set owning" "py_get r ''id'' YNull = Inr x" "py_hash x = Inr h" by blast
    with dangling h show False by (auto simp: py_eq_def)
  qed
  from kind have
    "(doc = pd \<and> list_key = ''breadcrumb_fields'' \<and> fk = ''parameter_id'' \<and>
        owner_key = ''parameters'' \<and> mk = BreadcrumbDangling) \<or>
     (doc = pd \<and> list_key = ''vg5_fields'' \<and> fk = ''parameter_id'' \<and>
        owner_key = ''parameters'' \<and> mk = Vg5Dangling) \<or>
     (doc = pd \<and> list_key = ''abbr_metrics'' \<and> fk = ''parameter_id'' \<and>
        owner_key = ''parameters'' \<and> mk = AbbrMetricDangling) \<or>
     (doc = gd \<and> list_key = ''protocols'' \<and> fk = ''group_id'' \<and>
        owner_key = ''protocol_groups'' \<and> mk = ProtocolDangling)"
    by (simp only: insert_iff empty_iff prod.inject simp_thms)
  then have "mk (i + 1) v \<in> set (e3 @ e4)"
  proof (elim disjE conjE)
    assume b: "doc = pd" "list_key = ''breadcrumb_fields''" "fk = ''parameter_id''"
        "owner_key = ''parameters''" "mk = BreadcrumbDangling"
    from e3 owners b obtain ids l1 l2 l3 where
      ids: "gather_keys ''id'' not_none owning = Inr ids" and
      l: "foreign_key_loop pd ''breadcrumb_fields'' ''parameter_id'' BreadcrumbDangling ids = Inr l1"
      and e: "e3 = l1 @ l2 @ l3"
      by (auto simp: validate_internal_parameter_refs_def ebind_Inr_iff and_then_Inr_iff)
    from foreign_key_loop_reports [OF l] records dependent no_id [OF ids] b e
    show ?thesis by auto
  next
    assume v: "doc = pd" "list_key = ''vg5_fields''" "fk = ''parameter_id''"
        "owner_key = ''parameters''" "mk = Vg5Dangling"
    from e3 owners v obtain ids l1 l2 l3 where
      ids: "gather_keys ''id'' not_none owning = Inr ids" and
      l: "foreign_key_loop pd ''vg5_fields'' ''parameter_id'' Vg5Dangling ids = Inr l2"
      and e: "e3 = l1 @ l2 @ l3"
      by (auto simp: validate_internal_parameter_refs_def ebind_Inr_iff and_then_Inr_iff)
    from foreign_key_loop_reports [OF l] records dependent no_id [OF ids] v e
    show ?thesis by auto
  next
    assume a: "doc = pd" "list_key = ''abbr_metrics''" "fk = ''parameter_id''"
        "owner_key = ''parameters''" "mk = AbbrMetricDangling"
    from e3 owners a obtain ids l1 l2 l3 where
      ids: "gather_keys ''id'' not_none owning = Inr ids" and
      l: "foreign_key_loop pd ''abbr_metrics'' ''parameter_id'' AbbrMetricDangling ids = Inr l3"
      and e: "e3 = l1 @ l2 @ l3"
      by (auto simp: validate_internal_parameter_refs_def ebind_Inr_iff and_then_Inr_iff)
    from foreign_key_loop_reports [OF l] records dependent no_id [OF ids] a e
    show ?thesis by auto
  next
    assume p: "doc = gd" "list_key = ''protocols''" "fk = ''group_id''"
        "owner_key = ''protocol_groups''" "mk = ProtocolDangling"
    from e4 owners p obtain ids where
      ids: "gather_keys ''id'' not_none owning = Inr ids" and
      l: "foreign_key_loop gd ''protocols'' ''group_id'' ProtocolDangling ids = Inr e4"
      by (auto simp: validate_internal_protocol_refs_def ebind_Inr_iff)
    from foreign_key_loop_reports [OF l] records dependent no_id [OF ids] p
    show ?thesis by auto
  qed
  with errs have m: "mk (i + 1) v \<in> set errs" by auto
  then have "errs \<noteq> []" by auto
  with loaded run have "validate_cross_references fs parameters_file protocols_file = (False, errs)"
    by (simp add: validate_cross_references_def load_yaml_file_def outcome_Inr)
  with m show ?thesis by simp
qed


text \<open>
  Claim C6, as the code has it. On two loaded documents, let a breadcrumb field, VG5
  field, abbreviation metric or protocol entry at index \<open>i\<close> of its list carry the
  foreign key \<open>v\<close> (\<^verbatim>\<open>parameter_id\<close> or \<^verbatim>\<open>group_id\<close>, not null), and let no record of
  the owning list (\<^verbatim>\<open>parameters\<close> or \<^verbatim>\<open>protocol_groups\<close>) have an id equal to \<open>v\<close>.
  Then cross-reference validation returns invalid. When it completes without raising,
  with the errors \<open>errs\<close>, it returns \<open>errs\<close>, and \<open>errs\<close> contains the message of that
  kind of record with the 1-based position \<open>i + 1\<close> and the id \<open>v\<close>.
\<close>

theorem dangling_reference_reported:
  assumes loaded: "fs parameters_file = Parsed pd" "fs protocols_file = Parsed gd"
    and kind: "(doc, list_key, fk, owner_key, mk) \<in>
        {(pd, ''breadcrumb_fields'', ''parameter_id'', ''parameters'', BreadcrumbDangling),
         (pd, ''vg5_fields'', ''parameter_id'', ''parameters'', Vg5Dangling),
         (pd, ''abbr_metrics'', ''parameter_id'', ''parameters'', AbbrMetricDangling),
         (gd, ''protocols'', ''group_id'', ''protocol_groups'', ProtocolDangling)}"
    and records: "section_items doc list_key = Inr rs"
    and owners: "section_items doc owner_key = Inr owning"
    and dependent: "i < length rs" "py_get (rs ! i) fk YNull = Inr v" "v \<noteq> YNull"
    and dangling: "\<forall>r\<in>set owning. \<forall>x. py_get r ''id'' YNull = Inr x \<longrightarrow> \<not> py_eq x v"
  shows "\<not> fst (validate_cross_references fs parameters_file protocols_file) \<and>
         (\<forall>errs. cross_reference_errors pd gd = Inr errs \<longrightarrow>
            validate_cross_references fs parameters_file protocols_file = (False, errs) \<and>
            mk (i + 1) v \<in> set errs)"
proof (cases "cross_reference_errors pd gd")
  case (Inl e)
  with loaded show ?thesis
    by (simp add: validate_cross_references_def load_yaml_file_def outcome_Inl)
next
  case (Inr errs)
  from dangling_in_errors [OF loaded Inr kind records owners dependent dangling] Inr
  show ?thesis by simp
qed

text \<open>Scenario D satisfies the hypotheses.\<close>

theorem dangling_reference_reported_witness:
  "validate_cross_references
     (two_files (parameters_document [engine_speed] [YMap [(''parameter_id'', YInt 99)]] [] [])
                (protocols_document [espd_group] []))
     ''data/parameters.yaml'' ''data/protocols.yaml'' = (False, [BreadcrumbDangling 1 (YInt 99)]) \<and>
   BreadcrumbDangling 1 (YInt 99) \<in> set [BreadcrumbDangling 1 (YInt 99)]"
proof -
  let ?pd = "parameters_document [engine_speed] [YMap [(''parameter_id'', YInt 99)]] [] []"
  let ?gd = "protocols_document [espd_group] []"
  have loaded: "two_files ?pd ?gd ''data/parameters.yaml'' = Parsed ?pd"
    "two_files ?pd ?gd ''data/protocols.yaml'' = Parsed ?gd"
    by (simp_all add: two_files_def)
  have run: "cross_reference_errors ?pd ?gd = Inr [BreadcrumbDangling 1 (YInt 99)]"
    by (simp add: example_defs cross_reference_errors_def validate_parameter_to_protocol_refs_def
        validate_protocol_to_parameter_refs_def validate_internal_parameter_refs_def
        validate_internal_protocol_refs_def section_items_def check_name_ref_def
        foreign_key_loop_def check_foreign_key_def not_none_def enumerate_eq_zip)
  have kind: "(?pd, ''breadcrumb_fields'', ''parameter_id'', ''parameters'', BreadcrumbDangling) \<in>
        {(?pd, ''breadcrumb_fields'', ''parameter_id'', ''parameters'', BreadcrumbDangling),
         (?pd, ''vg5_fields'', ''parameter_id'', ''parameters'', Vg5Dangling),
         (?pd, ''abbr_metrics'', ''parameter_id'', ''parameters'', AbbrMetricDangling),
         (?gd, ''protocols'', ''group_id'', ''protocol_groups'', ProtocolDangling)}"
    by simp
  have records: "section_items ?pd ''breadcrumb_fields'' = Inr [YMap [(''parameter_id'', YInt 99)]]"
    by (simp add: parameters_document_def section_items_def)
  have owners: "section_items ?pd ''parameters'' = Inr [engine_speed]"
    by (simp add: parameters_document_def section_items_def)
  have dependent: "0 < length [YMap [(''parameter_id'', YInt 99)]]"
    "py_get ([YMap [(''parameter_id'', YInt 99)]] ! 0) ''parameter_id'' YNull = Inr (YInt 99)"
    "YInt 99 \<noteq> YNull"
    by simp_all
  have dangling: "\<forall>r\<in>set [engine_speed]. \<forall>x. py_get r ''id'' YNull = Inr x \<longrightarrow> \<not> py_eq x (YInt 99)"
    by (simp add: engine_speed_def py_eq_def)
  from dangling_reference_reported [where fs = "two_files ?pd ?gd"
      and parameters_file = "''data/parameters.yaml''" and protocols_file = "''data/protocols.yaml''",
      OF loaded kind records owners dependent dangling, THEN conjunct2, THEN spec, THEN mp, OF run]
  show ?thesis by simp
qed

text \<open>
  Claim C6 as stated fails. The first protocol entry refers to the group 99, which
  does not exist; the second entry is a string, whose \<^verbatim>\<open>get\<close> raises. The dangling
  reference, reported when the entry stands alone, is not reported: the one handler
  around the whole function replaces every message by that of the exception. An entry
  without a \<^verbatim>\<open>group_id\<close> is passed over by the guard \<^verbatim>\<open>is not None\<close>.
\<close>

theorem dangling_reference_reported_counterexample:
  "validate_cross_references
     (two_files (parameters_document [engine_speed] [] [] [])
                (protocols_document [espd_group] [YMap [(''group_id'', YInt 99)], YStr ''oops'']))
     ''data/parameters.yaml'' ''data/protocols.yaml'' = (False, [CrossRefError AttributeError]) \<and>
   validate_cross_references
     (two_files (parameters_document [engine_speed] [] [] [])
                (protocols_document [espd_group] [YMap [(''group_id'', YInt 99)]]))
     ''data/parameters.yaml'' ''data/protocols.yaml'' = (False, [ProtocolDangling 1 (YInt 99)]) \<and>
   validate_cross_references
     (two_files (parameters_document [engine_speed] [] [] [])
                (protocols_document [espd_group] [YMap [(''abbr'', YStr ''ESPD'')]]))
     ''data/parameters.yaml'' ''data/protocols.yaml'' = (True, [CrossRefPassed])"
  by code_simp

section \<open>Guarded checks of a parameter\<close>







section \<open>Exceptions inside a validator\<close>

lemma raised_Inl [simp]: "raised (Inl e) = Some e"
  by (simp add: raised_def)

lemma raised_Inr [simp]: "raised (Inr x) = None"
  by (simp add: raised_def)
















































text \<open>
  The first step that raises, raises \<open>e\<close>: some step raises \<open>e\<close> and no step before it
  raises.
\<close>

lemma first_raised_iff:
  "first_raised steps = Some e \<longleftrightarrow>
     (\<exists>k<length steps. steps ! k = Some e \<and> (\<forall>j<k. steps ! j = None))"
proof (induction steps)
  case Nil
  then show ?case by simp
next
  case (Cons s steps)
  show ?case
  proof (cases s)
    case None
    have "(\<exists>k<length (s # steps). (s # steps) ! k = Some e \<and> (\<forall>j<k. (s # steps) ! j = None)) \<longleftrightarrow>
          (\<exists>k<length steps. steps ! k = Some e \<and> (\<forall>j<k. steps ! j = None))"
    proof
      assume "\<exists>k<length (s # steps). (s # steps) ! k = Some e \<and> (\<forall>j<k. (s # steps) ! j = None)"
      then obtain k where k: "k < length (s # steps)" "(s # steps) ! k = Some e"
        "\<forall>j<k. (s # steps) ! j = None" by blast
      with None obtain k' where k': "k = Suc k'" by (cases k) auto
      with k have "k' < length steps" "steps ! k' = Some e" by auto
      moreover have "\<forall>j<k'. steps ! j = None"
      proof (intro allI impI)
        fix j assume "j < k'"
        with k' k(3) have "(s # steps) ! Suc j = None" by auto
        then show "steps ! j = None" by simp
      qed
      ultimately show "\<exists>k<length steps. steps ! k = Some e \<and> (\<forall>j<k. steps ! j = None)" by blast
    next
      assume "\<exists>k<length steps. steps ! k = Some e \<and> (\<forall>j<k. steps ! j = None)"
      then obtain k where k: "k < length steps" "steps ! k = Some e" "\<forall>j<k. steps ! j = None"
        by blast
      have "\<forall>j<Suc k. (s # steps) ! j = None"
      proof (intro allI impI)
        fix j assume "j < Suc k"
        with k(3) None show "(s # steps) ! j = None" by (cases j) auto
      qed
      with k show "\<exists>k<length (s # steps). (s # steps) ! k = Some e \<and> (\<forall>j<k. (s # steps) ! j = None)"
        by (intro exI [of _ "Suc k"]) simp
    qed
    with None Cons.IH show ?thesis by simp
  next
    case (Some e')
    have "(\<exists>k<length (s # steps). (s # steps) ! k = Some e \<and> (\<forall>j<k. (s # steps) ! j = None)) \<longleftrightarrow> e' = e"
    proof
      assume "\<exists>k<length (s # steps). (s # steps) ! k = Some e \<and> (\<forall>j<k. (s # steps) ! j = None)"
      then obtain k where k: "(s # steps) ! k = Some e" "\<forall>j<k. (s # steps) ! j = None" by blast
      with Some have "k = 0" by (cases k) auto
      with k Some show "e' = e" by simp
    next
      assume "e' = e"
      with Some show "\<exists>k<length (s # steps). (s # steps) ! k = Some e \<and> (\<forall>j<k. (s # steps) ! j = None)"
        by (intro exI [of _ 0]) simp
    qed
    with Some show ?thesis by simp
  qed
qed





section \<open>The orchestrator: stages, reports and status\<close>

lemma validate_all_present:
  assumes "files w parameters_file \<noteq> Missing" and "files w protocols_file \<noteq> Missing"
  shows "validate_all w validation_start validation_end parameters_file protocols_file =
     (let steps =
            [(''json_schema'', run_json_schema_validation w parameters_file protocols_file),
             (''custom_logic'', run_custom_validation w parameters_file protocols_file),
             (''cross_references'',
              run_cross_reference_validation w parameters_file protocols_file)]
      in \<lparr> validation_timestamp = validation_start,
           files_validated = (parameters_file, protocols_file),
           overall_valid = all_passed (generate_summary steps),
           validation_steps = steps,
           summary_of = Some (generate_summary steps),
           errors = concat (map (\<lambda>st. if step_status (snd st) = Failed then step_errors (snd st)
                                       else []) steps),
           warnings = concat (map (\<lambda>st. step_warnings (snd st)) steps),
           validation_duration_seconds = Some (validation_end - validation_start) \<rparr>)"
  using assms by (simp add: validate_all_def check_file_existence_def Let_def)

lemma validate_all_missing:
  assumes "files w parameters_file = Missing \<or> files w protocols_file = Missing"
  shows "validate_all w validation_start validation_end parameters_file protocols_file =
      \<lparr> validation_timestamp = validation_start,
        files_validated = (parameters_file, protocols_file),
        overall_valid = False,
        validation_steps =
          [(''file_existence'',
            \<lparr> step_status = Failed, step_errors = [RequiredFilesMissing],
              step_warnings = [], step_details = [] \<rparr>)],
        summary_of = None,
        errors = [RequiredFilesMissing],
        warnings = [],
        validation_duration_seconds = None \<rparr>"
  using assms by (auto simp: validate_all_def check_file_existence_def Let_def)

text \<open>
  Claim C2. When both source documents exist, the steps of the report are the three
  stages in order (schema, business rules, cross-references), each the result of its
  stage function on the same files, whatever the other stages returned; each stage
  calls both of its validators; the report's errors are the errors of the three stages
  in order; and the summary counts three steps. When a document is missing, the report
  is the one of the early return: the only step is the failed file-existence check, no
  stage ran, and the summary and the duration are not set.
\<close>

theorem all_stages_run:
  "(files w parameters_file \<noteq> Missing \<and> files w protocols_file \<noteq> Missing \<longrightarrow>
      validation_steps (validate_all w validation_start validation_end parameters_file protocols_file) =
        [(''json_schema'', run_json_schema_validation w parameters_file protocols_file),
         (''custom_logic'', run_custom_validation w parameters_file protocols_file),
         (''cross_references'', run_cross_reference_validation w parameters_file protocols_file)] \<and>
      map fst (step_details (run_json_schema_validation w parameters_file protocols_file)) =
        [''parameters'', ''protocols''] \<and>
      map fst (step_details (run_custom_validation w parameters_file protocols_file)) =
        [''parameters_custom'', ''protocols_custom''] \<and>
      map fst (step_details (run_cross_reference_validation w parameters_file protocols_file)) =
        [''cross_references'', ''bidirectional_consistency''] \<and>
      errors (validate_all w validation_start validation_end parameters_file protocols_file) =
        step_errors (run_json_schema_validation w parameters_file protocols_file) @
        step_errors (run_custom_validation w parameters_file protocols_file) @
        step_errors (run_cross_reference_validation w parameters_file protocols_file) \<and>
      map_option total_steps
        (summary_of (validate_all w validation_start validation_end parameters_file protocols_file)) =
        Some 3) \<and>
   (files w parameters_file = Missing \<or> files w protocols_file = Missing \<longrightarrow>
      validate_all w validation_start validation_end parameters_file protocols_file =
        \<lparr> validation_timestamp = validation_start,
          files_validated = (parameters_file, protocols_file),
          overall_valid = False,
          validation_steps =
            [(''file_existence'',
              \<lparr> step_status = Failed, step_errors = [RequiredFilesMissing],
                step_warnings = [], step_details = [] \<rparr>)],
          summary_of = None,
          errors = [RequiredFilesMissing],
          warnings = [],
          validation_duration_seconds = None \<rparr>)"
proof (intro conjI impI)
  assume a: "files w parameters_file = Missing \<or> files w protocols_file = Missing"
  then show "validate_all w validation_start validation_end parameters_file protocols_file =
        \<lparr> validation_timestamp = validation_start,
          files_validated = (parameters_file, protocols_file),
          overall_valid = False,
          validation_steps =
            [(''file_existence'',
              \<lparr> step_status = Failed, step_errors = [RequiredFilesMissing],
                step_warnings = [], step_details = [] \<rparr>)],
          summary_of = None,
          errors = [RequiredFilesMissing],
          warnings = [],
          validation_duration_seconds = None \<rparr>"
    by (rule validate_all_missing)
next
  assume a: "files w parameters_file \<noteq> Missing \<and> files w protocols_file \<noteq> Missing"
  then have p: "files w parameters_file \<noteq> Missing" "files w protocols_file \<noteq> Missing"
    by simp_all
  note v = validate_all_present [OF p]
  show "validation_steps (validate_all w validation_start validation_end parameters_file protocols_file) =
        [(''json_schema'', run_json_schema_validation w parameters_file protocols_file),
         (''custom_logic'', run_custom_validation w parameters_file protocols_file),
         (''cross_references'', run_cross_reference_validation w parameters_file protocols_file)]"
    by (simp add: v Let_def)
  show "map fst (step_details (run_json_schema_validation w parameters_file protocols_file)) =
        [''parameters'', ''protocols'']"
    by (simp add: run_json_schema_validation_def run_pair_def)
  show "map fst (step_details (run_custom_validation w parameters_file protocols_file)) =
        [''parameters_custom'', ''protocols_custom'']"
    by (simp add: run_custom_validation_def run_pair_def)
  show "map fst (step_details (run_cross_reference_validation w parameters_file protocols_file)) =
        [''cross_references'', ''bidirectional_consistency'']"
    by (simp add: run_cross_reference_validation_def run_pair_def)
  have e: "\<And>k1 r1 k2 r2. step_status (run_pair k1 r1 k2 r2) \<noteq> Failed \<Longrightarrow>
      step_errors (run_pair k1 r1 k2 r2) = []"
    by (simp add: run_pair_def split: if_splits)
  show "errors (validate_all w validation_start validation_end parameters_file protocols_file) =
        step_errors (run_json_schema_validation w parameters_file protocols_file) @
        step_errors (run_custom_validation w parameters_file protocols_file) @
        step_errors (run_cross_reference_validation w parameters_file protocols_file)"
    by (simp add: v Let_def run_json_schema_validation_def run_custom_validation_def
        run_cross_reference_validation_def e)
  show "map_option total_steps
        (summary_of (validate_all w validation_start validation_end parameters_file protocols_file)) =
        Some 3"
    by (simp add: v Let_def generate_summary_def)
qed

text \<open>
  A run in which the schema stage fails still has the two later stages, and a run with a
  missing protocols document returns the early report.
\<close>

theorem all_stages_run_witness:
  "map (\<lambda>s. (fst s, step_status (snd s)))
     (validation_steps
        (validate_all (scenario_world [(''root'', ''not an object'')]) 0 5
           ''data/parameters.yaml'' ''data/protocols.yaml'')) =
     [(''json_schema'', Failed), (''custom_logic'', Passed), (''cross_references'', Passed)] \<and>
   validate_all (scenario_world []) 0 5 ''data/parameters.yaml'' ''missing.yaml'' =
     \<lparr> validation_timestamp = 0,
       files_validated = (''data/parameters.yaml'', ''missing.yaml''),
       overall_valid = False,
       validation_steps =
         [(''file_existence'',
           \<lparr> step_status = Failed, step_errors = [RequiredFilesMissing],
             step_warnings = [], step_details = [] \<rparr>)],
       summary_of = None,
       errors = [RequiredFilesMissing],
       warnings = [],
       validation_duration_seconds = None \<rparr>"
proof -
  let ?w = "scenario_world [(''root'', ''not an object'')]"
  have p: "files ?w ''data/parameters.yaml'' \<noteq> Missing \<and> files ?w ''data/protocols.yaml'' \<noteq> Missing"
    by (simp add: scenario_world_def two_files_def)
  have s: "step_status (run_json_schema_validation ?w ''data/parameters.yaml'' ''data/protocols.yaml'') = Failed"
    "step_status (run_custom_validation ?w ''data/parameters.yaml'' ''data/protocols.yaml'') = Passed"
    "step_status (run_cross_reference_validation ?w ''data/parameters.yaml'' ''data/protocols.yaml'') = Passed"
    by code_simp+
  have m: "files (scenario_world []) ''data/parameters.yaml'' = Missing \<or>
      files (scenario_world []) ''missing.yaml'' = Missing"
    by (simp add: scenario_world_def two_files_def)
  from all_stages_run [of ?w "''data/parameters.yaml''" "''data/protocols.yaml''" 0 5,
      THEN conjunct1, THEN mp, OF p, THEN conjunct1] s
  have a: "map (\<lambda>s. (fst s, step_status (snd s)))
     (validation_steps (validate_all ?w 0 5 ''data/parameters.yaml'' ''data/protocols.yaml'')) =
     [(''json_schema'', Failed), (''custom_logic'', Passed), (''cross_references'', Passed)]"
    by simp
  from all_stages_run [of "scenario_world []" "''data/parameters.yaml''" "''missing.yaml''" 0 5,
      THEN conjunct2, THEN mp, OF m] a
  show ?thesis by (intro conjI)
qed

text \<open>
  Claim C5, evaluated on the code. \<^verbatim>\<open>validate_all\<close> always returns a report. When a
  source document is missing, the report of the early return has no
  \<^verbatim>\<open>validation_duration_seconds\<close> and an empty summary, and
  \<^verbatim>\<open>get_validation_status\<close>, which subscripts the report with that key, raises
  \<^verbatim>\<open>KeyError\<close>. When both documents exist, \<^verbatim>\<open>get_validation_status\<close> returns a
  status.
\<close>

theorem status_of_report:
  "(files w parameters_file = Missing \<or> files w protocols_file = Missing \<longrightarrow>
      validation_duration_seconds
        (validate_all w validation_start validation_end parameters_file protocols_file) = None \<and>
      summary_of
        (validate_all w validation_start validation_end parameters_file protocols_file) = None \<and>
      get_validation_status w validation_start validation_end parameters_file protocols_file =
        Inl (KeyError ''validation_duration_seconds'')) \<and>
   (files w parameters_file \<noteq> Missing \<and> files w protocols_file \<noteq> Missing \<longrightarrow>
      (\<exists>s. get_validation_status w validation_start validation_end parameters_file protocols_file =
             Inr s))"
  by (auto simp: get_validation_status_def validate_all_missing validate_all_present Let_def)


text \<open>
  A missing protocols document, and the documents of Scenario A.
\<close>

theorem status_of_report_witness:
  "get_validation_status (scenario_world []) 0 5 ''data/parameters.yaml'' ''missing.yaml'' =
     Inl (KeyError ''validation_duration_seconds'') \<and>
   (\<exists>s. get_validation_status (scenario_world []) 0 5 ''data/parameters.yaml''
           ''data/protocols.yaml'' = Inr s)"
proof -
  have m: "files (scenario_world []) ''data/parameters.yaml'' = Missing \<or>
      files (scenario_world []) ''missing.yaml'' = Missing"
    by (simp add: scenario_world_def two_files_def)
  have p: "files (scenario_world []) ''data/parameters.yaml'' \<noteq> Missing \<and>
      files (scenario_world []) ''data/protocols.yaml'' \<noteq> Missing"
    by (simp add: scenario_world_def two_files_def)
  from status_of_report [of "scenario_world []" "''data/parameters.yaml''" "''missing.yaml''" 0 5,
      THEN conjunct1, THEN mp, OF m]
  have a: "get_validation_status (scenario_world []) 0 5 ''data/parameters.yaml'' ''missing.yaml'' =
     Inl (KeyError ''validation_duration_seconds'')"
    by simp
  from status_of_report [of "scenario_world []" "''data/parameters.yaml''" "''data/protocols.yaml''"
      0 5, THEN conjunct2, THEN mp, OF p] a
  show ?thesis by (intro conjI)
qed

section \<open>Materialization\<close>

lemma record_values_Cons_iff:
  "record_values r (k # ks) = Inr vs \<longleftrightarrow>
     (\<exists>v vs'. py_get r k YNull = Inr v \<and> record_values r ks = Inr vs' \<and> vs = v # vs')"
  by (auto split: sum.splits)

lemma bind_all_Cons_iff:
  "bind_all (v # vs) = Inr bs \<longleftrightarrow>
     (\<exists>b bs'. bind_value v = Inr b \<and> bind_all vs = Inr bs' \<and> bs = b # bs')"
  by (auto split: sum.splits)

lemma bound_first:
  assumes "ebind (record_values r (k # ks)) bind_all = Inr bs"
  shows "\<exists>v b others. py_get r k YNull = Inr v \<and> bind_value v = Inr b \<and> bs = b # others"
  using assms
  by (auto simp: ebind_Inr_iff record_values_Cons_iff bind_all_Cons_iff
      simp del: record_values.simps bind_all.simps)

lemma insert_owner_row:
  assumes "insert_owner t bs = Inr t'"
  shows "\<exists>b cols rowid. bs = b # cols \<and> t' = t @ [(rowid, cols)] \<and> (b = SNull \<or> b = SInt rowid)"
  using assms
  by (auto simp: insert_owner_def split: list.splits if_splits sqlval.splits)

lemma insert_rows_owner:
  "insert_rows insert_owner cols rs t = Inr t' \<Longrightarrow>
   \<exists>new. t' = t @ new \<and> list_all2 (owner_row cols) rs new"
proof (induction rs arbitrary: t)
  case Nil
  then show ?case by simp
next
  case (Cons r rs)
  from Cons.prems obtain vs bs t1 where
    s: "record_values r cols = Inr vs" "bind_all vs = Inr bs" "insert_owner t bs = Inr t1"
       "insert_rows insert_owner cols rs t1 = Inr t'"
    by (auto split: sum.splits)
  from insert_owner_row [OF s(3)] obtain b others rowid where
    row: "bs = b # others" "t1 = t @ [(rowid, others)]" "b = SNull \<or> b = SInt rowid" by blast
  from Cons.IH [OF s(4)] obtain new where new: "t' = t1 @ new" "list_all2 (owner_row cols) rs new"
    by blast
  from s(1,2) row have "owner_row cols r (rowid, others)"
    by (simp add: owner_row_def)
  with new row(2) have "t' = t @ ((rowid, others) # new) \<and>
      list_all2 (owner_row cols) (r # rs) ((rowid, others) # new)"
    by simp
  then show ?case by blast
qed

lemma insert_rows_dependent:
  "insert_rows insert_dependent cols rs t = Inr t' \<Longrightarrow>
   \<exists>new. t' = t @ new \<and> list_all2 (dependent_row cols) rs new"
proof (induction rs arbitrary: t)
  case Nil
  then show ?case by simp
next
  case (Cons r rs)
  from Cons.prems obtain vs bs t1 where
    s0: "record_values r cols = Inr vs" "bind_all vs = Inr bs" "insert_dependent t bs = Inr t1"
       "insert_rows insert_dependent cols rs t1 = Inr t'"
    by (auto split: sum.splits)
  from s0(3) have "t1 = t @ [(int (length t) + 1, bs)]" by (simp add: insert_dependent_def)
  with s0 have
    s: "record_values r cols = Inr vs" "bind_all vs = Inr bs"
       "insert_rows insert_dependent cols rs (t @ [(int (length t) + 1, bs)]) = Inr t'"
    by simp_all
  from Cons.IH [OF s(3)] obtain new where
    new: "t' = (t @ [(int (length t) + 1, bs)]) @ new" "list_all2 (dependent_row cols) rs new"
    by blast
  from s(1,2) have "dependent_row cols r (int (length t) + 1, bs)"
    by (simp add: dependent_row_def)
  with new have "t' = t @ ((int (length t) + 1, bs) # new) \<and>
      list_all2 (dependent_row cols) (r # rs) ((int (length t) + 1, bs) # new)"
    by simp
  then show ?case by blast
qed

lemma bind_value_hash:
  "bind_value v = Inr (SInt k) \<Longrightarrow> py_hash v = Inr (KInt k)"
  "bind_value v = Inr (SText s) \<Longrightarrow> py_hash v = Inr (KStr s)"
  "bind_value v = Inr SNull \<Longrightarrow> v = YNull"
  by (cases v; auto simp: bind_value_def split: if_splits)+

lemma hash_bind_value:
  "py_hash x = Inr (KInt k) \<Longrightarrow> bind_value x = Inr b \<Longrightarrow> b = SInt k"
  "py_hash x = Inr (KStr s) \<Longrightarrow> bind_value x = Inr b \<Longrightarrow> b = SText s"
  by (cases x; auto simp: bind_value_def split: if_splits)+

lemma resolves_tables:
  assumes own: "list_all2 (owner_row (''id'' # ocols)) os otbl"
    and dep: "list_all2 (dependent_row (fk # dcols)) rs dtbl"
    and ids: "gather_keys ''id'' not_none os = Inr ids"
    and fks: "\<forall>r\<in>set rs. \<forall>v. py_get r fk YNull = Inr v \<and> v \<noteq> YNull \<longrightarrow>
                (\<exists>h. py_hash v = Inr h \<and> h \<in> set ids)"
  shows "resolves otbl dtbl"
  unfolding resolves_def list_all_iff
proof
  fix row assume "row \<in> set dtbl"
  with dep obtain r where r: "r \<in> set rs" "dependent_row (fk # dcols) r row"
    by (metis in_set_conv_nth list_all2_conv_all_nth)
  from r(2) have "ebind (record_values r (fk # dcols)) bind_all = Inr (snd row)"
    by (simp add: dependent_row_def)
  from bound_first [OF this] obtain v b others where
    v: "py_get r fk YNull = Inr v" "bind_value v = Inr b" "snd row = b # others" by blast
  have owner: "\<And>h. py_hash v = Inr h \<Longrightarrow> v \<noteq> YNull \<Longrightarrow>
      \<exists>orow x b0. orow \<in> set otbl \<and> py_hash x = Inr h \<and> bind_value x = Inr b0 \<and>
         (b0 = SNull \<or> b0 = SInt (fst orow))"
  proof -
    fix h assume h: "py_hash v = Inr h" and nn: "v \<noteq> YNull"
    from fks r(1) v(1) nn h have "h \<in> set ids" by fastforce
    from gather_keys_mem [OF ids this] obtain ow x where
      ow: "ow \<in> set os" "py_get ow ''id'' YNull = Inr x" "py_hash x = Inr h" by blast
    from own ow(1) obtain orow where orow: "orow \<in> set otbl" "owner_row (''id'' # ocols) ow orow"
      by (metis in_set_conv_nth list_all2_conv_all_nth)
    from orow(2) obtain bs where bs: "ebind (record_values ow (''id'' # ocols)) bind_all = Inr bs"
      by (auto simp: owner_row_def split: sum.splits)
    from bound_first [OF bs] ow(2) obtain b0 others0 where
      b0: "bind_value x = Inr b0" "bs = b0 # others0" by auto
    from orow(2) bs b0 have "b0 = SNull \<or> b0 = SInt (fst orow)"
      by (simp add: owner_row_def)
    with orow(1) ow(3) b0(1) show "\<exists>orow x b0. orow \<in> set otbl \<and> py_hash x = Inr h \<and>
        bind_value x = Inr b0 \<and> (b0 = SNull \<or> b0 = SInt (fst orow))"
      by blast
  qed
  show "case snd row of [] \<Rightarrow> False
        | b # others \<Rightarrow>
            (case b of SNull \<Rightarrow> True | SInt k \<Rightarrow> k \<in> set (map fst otbl) | SText s \<Rightarrow> False)"
  proof (cases b)
    case SNull
    with v(3) show ?thesis by simp
  next
    case (SInt k)
    with v(2) have h: "py_hash v = Inr (KInt k)" by (simp add: bind_value_hash)
    from SInt v(2) have "v \<noteq> YNull" by (auto simp: bind_value_def)
    from owner [OF h this] obtain orow x b0 where
      o: "orow \<in> set otbl" "py_hash x = Inr (KInt k)" "bind_value x = Inr b0"
         "b0 = SNull \<or> b0 = SInt (fst orow)" by blast
    from hash_bind_value(1) [OF o(2,3)] o(4) have "fst orow = k" by simp
    with o(1) have "k \<in> set (map fst otbl)" by force
    with v(3) SInt show ?thesis by simp
  next
    case (SText s)
    with v(2) have h: "py_hash v = Inr (KStr s)" by (simp add: bind_value_hash)
    from SText v(2) have "v \<noteq> YNull" by (auto simp: bind_value_def)
    from owner [OF h this] obtain orow x b0 where
      o: "py_hash x = Inr (KStr s)" "bind_value x = Inr b0"
         "b0 = SNull \<or> b0 = SInt (fst orow)" by auto
    from hash_bind_value(2) [OF o(1,2)] o(3) show ?thesis by simp
  qed
qed

lemma foreign_key_loop_valid:
  assumes loop: "foreign_key_loop doc list_key fk mk ids = Inr []"
    and records: "section_items doc list_key = Inr rs"
  shows "\<forall>r\<in>set rs. \<forall>v. py_get r fk YNull = Inr v \<and> v \<noteq> YNull \<longrightarrow>
            (\<exists>h. py_hash v = Inr h \<and> h \<in> set ids)"
proof (intro ballI allI impI)
  fix r v assume r: "r \<in> set rs" and v: "py_get r fk YNull = Inr v \<and> v \<noteq> YNull"
  from loop records have c: "collect (check_foreign_key fk mk ids) (enumerate 0 rs) = Inr []"
    by (simp add: foreign_key_loop_def)
  from r obtain i where "i < length rs" "rs ! i = r" by (auto simp: in_set_conv_nth)
  then have "(i, r) \<in> set (enumerate 0 rs)" by (simp add: in_set_enumerate_eq)
  from collect_Nil_elem [OF c this] v show "\<exists>h. py_hash v = Inr h \<and> h \<in> set ids"
    by (auto simp: check_foreign_key_def not_none_def ebind_Inr_iff split: if_splits)
qed

lemma overall_valid_cross:
  assumes valid: "overall_valid (validate_all w validation_start validation_end parameters_file protocols_file)"
    and loaded: "files w parameters_file = Parsed pd" "files w protocols_file = Parsed gd"
  shows "cross_reference_errors pd gd = Inr []"
proof -
  from loaded have p: "files w parameters_file \<noteq> Missing" "files w protocols_file \<noteq> Missing"
    by simp_all
  from valid have "step_status (run_cross_reference_validation w parameters_file protocols_file) = Passed"
    by (simp add: validate_all_present [OF p] Let_def generate_summary_def)
  then have "fst (validate_cross_references (files w) parameters_file protocols_file)"
    by (simp add: run_cross_reference_validation_def run_pair_def split: if_splits)
  with loaded show ?thesis
    by (simp add: validate_cross_references_def outcome_valid_iff load_yaml_file_def)
qed


text \<open>
  Claim C7. Let a document pair be validated (\<^verbatim>\<open>overall_valid\<close> of \<^verbatim>\<open>validate_all\<close>),
  and let \<^verbatim>\<open>generate_database\<close> succeed on the same files with the artifact \<open>db\<close>.
  Then the \<^verbatim>\<open>parameters\<close> table has as many rows as the document has parameters and
  the \<^verbatim>\<open>protocols\<close> table as many rows as it has protocol entries; in each of the six
  tables the rows stand in document order, the \<open>i\<close>-th row holding the values bound
  for the \<open>i\<close>-th record; in the owning tables a record with an integer id has that id
  as the id of its row; and every foreign key of a dependent row is null or the id of
  a row of its owning table.
\<close>

theorem materialization_round_trip:
  assumes valid: "overall_valid (validate_all w validation_start validation_end
                                   parameters_file protocols_file)"
    and success: "generate_database (files w) parameters_file protocols_file = Inr db"
    and loaded: "files w parameters_file = Parsed pd" "files w protocols_file = Parsed gd"
    and lists: "section_items pd ''parameters'' = Inr params"
               "section_items pd ''breadcrumb_fields'' = Inr breadcrumbs"
               "section_items pd ''vg5_fields'' = Inr vg5s"
               "section_items pd ''abbr_metrics'' = Inr abbrs"
               "section_items gd ''protocol_groups'' = Inr groups"
               "section_items gd ''protocols'' = Inr protocols"
  shows "length (parameters_table db) = length params \<and>
         length (protocols_table db) = length protocols \<and>
         list_all2 (owner_row parameter_columns) params (parameters_table db) \<and>
         list_all2 (owner_row group_columns) groups (protocol_groups_table db) \<and>
         list_all2 (dependent_row breadcrumb_columns) breadcrumbs (breadcrumb_fields_table db) \<and>
         list_all2 (dependent_row vg5_columns) vg5s (vg5_fields_table db) \<and>
         list_all2 (dependent_row abbr_metric_columns) abbrs (abbr_metrics_table db) \<and>
         list_all2 (dependent_row protocol_columns) protocols (protocols_table db) \<and>
         resolves (parameters_table db) (breadcrumb_fields_table db) \<and>
         resolves (parameters_table db) (vg5_fields_table db) \<and>
         resolves (parameters_table db) (abbr_metrics_table db) \<and>
         resolves (protocol_groups_table db) (protocols_table db)"
proof -
  from success loaded obtain db1 where
    d1: "insert_parameters_data empty_database pd = Inr db1" and
    d2: "insert_protocols_data db1 gd = Inr db"
    by (auto simp: generate_database_def open_safe_load_def ebind_Inr_iff)
  from d1 lists obtain t1 t2 t3 t4 where
    t: "insert_rows insert_owner parameter_columns params [] = Inr t1"
       "insert_rows insert_dependent breadcrumb_columns breadcrumbs [] = Inr t2"
       "insert_rows insert_dependent vg5_columns vg5s [] = Inr t3"
       "insert_rows insert_dependent abbr_metric_columns abbrs [] = Inr t4" and
    db1: "db1 = empty_database \<lparr> parameters_table := t1, breadcrumb_fields_table := t2,
                 vg5_fields_table := t3, abbr_metrics_table := t4 \<rparr>"
    by (auto simp: insert_parameters_data_def ebind_Inr_iff empty_database_def)
  from d2 lists db1 obtain g1 g2 where
    g: "insert_rows insert_owner group_columns groups [] = Inr g1"
       "insert_rows insert_dependent protocol_columns protocols [] = Inr g2" and
    db: "db = db1 \<lparr> protocol_groups_table := g1, protocols_table := g2 \<rparr>"
    by (auto simp: insert_protocols_data_def ebind_Inr_iff empty_database_def)
  have tables: "parameters_table db = t1" "breadcrumb_fields_table db = t2"
    "vg5_fields_table db = t3" "abbr_metrics_table db = t4"
    "protocol_groups_table db = g1" "protocols_table db = g2"
    by (simp_all add: db db1)
  from insert_rows_owner [OF t(1)] have r1: "list_all2 (owner_row parameter_columns) params t1"
    by simp
  from insert_rows_dependent [OF t(2)]
  have r2: "list_all2 (dependent_row breadcrumb_columns) breadcrumbs t2" by simp
  from insert_rows_dependent [OF t(3)]
  have r3: "list_all2 (dependent_row vg5_columns) vg5s t3" by simp
  from insert_rows_dependent [OF t(4)]
  have r4: "list_all2 (dependent_row abbr_metric_columns) abbrs t4" by simp
  from insert_rows_owner [OF g(1)] have r5: "list_all2 (owner_row group_columns) groups g1"
    by simp
  from insert_rows_dependent [OF g(2)]
  have r6: "list_all2 (dependent_row protocol_columns) protocols g2" by simp
  from overall_valid_cross [OF valid loaded] obtain e3 e4 where
    "validate_internal_parameter_refs pd = Inr e3" "validate_internal_protocol_refs gd = Inr e4"
    "e3 @ e4 = []"
    by (auto simp: cross_reference_errors_def and_then_Inr_iff)
  then have v3: "validate_internal_parameter_refs pd = Inr []"
    and v4: "validate_internal_protocol_refs gd = Inr []" by simp_all
  from v3 lists(1) obtain pids where
    pids: "gather_keys ''id'' not_none params = Inr pids" and
    lp: "foreign_key_loop pd ''breadcrumb_fields'' ''parameter_id'' BreadcrumbDangling pids = Inr []"
        "foreign_key_loop pd ''vg5_fields'' ''parameter_id'' Vg5Dangling pids = Inr []"
        "foreign_key_loop pd ''abbr_metrics'' ''parameter_id'' AbbrMetricDangling pids = Inr []"
    by (auto simp: validate_internal_parameter_refs_def ebind_Inr_iff and_then_Inr_iff)
  from v4 lists(5) obtain gids where
    gids: "gather_keys ''id'' not_none groups = Inr gids" and
    lg: "foreign_key_loop gd ''protocols'' ''group_id'' ProtocolDangling gids = Inr []"
    by (auto simp: validate_internal_protocol_refs_def ebind_Inr_iff)
  have f1: "resolves t1 t2"
    using r1 r2 pids foreign_key_loop_valid [OF lp(1) lists(2)]
    unfolding parameter_columns_def breadcrumb_columns_def by (rule resolves_tables)
  have f2: "resolves t1 t3"
    using r1 r3 pids foreign_key_loop_valid [OF lp(2) lists(3)]
    unfolding parameter_columns_def vg5_columns_def by (rule resolves_tables)
  have f3: "resolves t1 t4"
    using r1 r4 pids foreign_key_loop_valid [OF lp(3) lists(4)]
    unfolding parameter_columns_def abbr_metric_columns_def by (rule resolves_tables)
  have f4: "resolves g1 g2"
    using r5 r6 gids foreign_key_loop_valid [OF lg lists(6)]
    unfolding group_columns_def protocol_columns_def by (rule resolves_tables)
  from r1 have n1: "length t1 = length params" by (simp add: list_all2_lengthD)
  from r6 have n2: "length g2 = length protocols" by (simp add: list_all2_lengthD)
  from n1 n2 r1 r2 r3 r4 r5 r6 f1 f2 f3 f4 show ?thesis
    unfolding tables by (intro conjI)
qed

text \<open>
  The documents of Scenario A with one breadcrumb field and one protocol entry are
  valid and materialize.
\<close>

theorem materialization_round_trip_witness:
  "overall_valid (validate_all materialization_world 0 5 ''data/parameters.yaml''
                    ''data/protocols.yaml'') \<and>
   (\<exists>db. generate_database (files materialization_world) ''data/parameters.yaml''
            ''data/protocols.yaml'' = Inr db \<and>
         length (parameters_table db) = length [engine_speed] \<and>
         length (protocols_table db) = length [espd_entry] \<and>
         resolves (parameters_table db) (breadcrumb_fields_table db) \<and>
         resolves (protocol_groups_table db) (protocols_table db))"
proof -
  let ?w = materialization_world
  let ?pd = "parameters_document [engine_speed] [engine_breadcrumb] [] []"
  let ?gd = "protocols_document [espd_group] [espd_entry]"
  have valid: "overall_valid (validate_all ?w 0 5 ''data/parameters.yaml'' ''data/protocols.yaml'')"
    by code_simp
  obtain db where success: "generate_database (files ?w) ''data/parameters.yaml''
      ''data/protocols.yaml'' = Inr db"
    by (simp add: generate_database_def materialization_world_def example_defs
        engine_breadcrumb_def espd_entry_def open_safe_load_def insert_parameters_data_def
        insert_protocols_data_def section_items_def parameter_columns_def breadcrumb_columns_def
        vg5_columns_def abbr_metric_columns_def group_columns_def protocol_columns_def
        bind_value_def insert_owner_def insert_dependent_def empty_database_def)
  have loaded: "files ?w ''data/parameters.yaml'' = Parsed ?pd"
    "files ?w ''data/protocols.yaml'' = Parsed ?gd"
    by (simp_all add: materialization_world_def two_files_def)
  have lists: "section_items ?pd ''parameters'' = Inr [engine_speed]"
    "section_items ?pd ''breadcrumb_fields'' = Inr [engine_breadcrumb]"
    "section_items ?pd ''vg5_fields'' = Inr []"
    "section_items ?pd ''abbr_metrics'' = Inr []"
    "section_items ?gd ''protocol_groups'' = Inr [espd_group]"
    "section_items ?gd ''protocols'' = Inr [espd_entry]"
    by (simp_all add: parameters_document_def protocols_document_def section_items_def)
  from materialization_round_trip [OF valid success loaded lists]
  have "generate_database (files ?w) ''data/parameters.yaml'' ''data/protocols.yaml'' = Inr db \<and>
         length (parameters_table db) = length [engine_speed] \<and>
         length (protocols_table db) = length [espd_entry] \<and>
         resolves (parameters_table db) (breadcrumb_fields_table db) \<and>
         resolves (protocol_groups_table db) (protocols_table db)"
    using success by (elim conjE) (intro conjI)
  then have "\<exists>db. generate_database (files ?w) ''data/parameters.yaml'' ''data/protocols.yaml'' = Inr db \<and>
         length (parameters_table db) = length [engine_speed] \<and>
         length (protocols_table db) = length [espd_entry] \<and>
         resolves (parameters_table db) (breadcrumb_fields_table db) \<and>
         resolves (protocol_groups_table db) (protocols_table db)" ..
  with valid show ?thesis by (rule conjI)
qed

end
